theory Spec2Isabelle
  imports Complex_Main "HOL-Library.AList" "HOL-Library.Sublist"
begin

section \<open>Python strings\<close>

text \<open>
  A Python \<open>str\<close> is a sequence of Unicode code points. The directory holds Turkish
  names whose letters lie beyond one byte, so a string is modelled as a list of code
  points (integers, as \<open>ord\<close> gives them), not as a list of 8-bit characters.
  \<open>cp\<close> turns an ASCII literal into such a list.
\<close>

type_synonym ustr = "int list"

definition cp :: "string \<Rightarrow> ustr" where
  "cp s = map of_char s"

text \<open>\<open>str.isspace\<close> on one code point: the Unicode white-space code points.\<close>

definition is_space :: "int \<Rightarrow> bool" where
  "is_space c \<longleftrightarrow>
     (9 \<le> c \<and> c \<le> 13) \<or> (28 \<le> c \<and> c \<le> 32) \<or> c = 133 \<or> c = 160 \<or> c = 5760 \<or>
     (8192 \<le> c \<and> c \<le> 8202) \<or> c = 8232 \<or> c = 8233 \<or> c = 8239 \<or> c = 8287 \<or> c = 12288"

text \<open>\<open>s.strip()\<close>: leading and trailing white space removed.\<close>

definition strip :: "ustr \<Rightarrow> ustr" where
  "strip s = rev (dropWhile is_space (rev (dropWhile is_space s)))"

text \<open>
  \<open>s.split()\<close> without a separator: the maximal runs of non-space code points, in
  order; never an empty token. \<open>cur\<close> is the token being read.
\<close>

fun split_acc :: "ustr \<Rightarrow> ustr \<Rightarrow> ustr list" where
  "split_acc cur [] = (if cur = [] then [] else [cur])"
| "split_acc cur (c # cs) =
     (if is_space c then (if cur = [] then split_acc [] cs else cur # split_acc [] cs)
      else split_acc (cur @ [c]) cs)"

definition split_ws :: "ustr \<Rightarrow> ustr list" where
  "split_ws s = split_acc [] s"

text \<open>\<open>s.replace(a, b)\<close> for one-character \<open>a\<close> and \<open>b\<close>.\<close>

definition replace_char :: "int \<Rightarrow> int \<Rightarrow> ustr \<Rightarrow> ustr" where
  "replace_char a b s = map (\<lambda>c. if c = a then b else c) s"

text \<open>
  \<open>s.replace(old, new)\<close> for a non-empty \<open>old\<close> (every call in the source passes a
  non-empty literal): left to right, occurrences that do not overlap.
\<close>

fun replace :: "ustr \<Rightarrow> ustr \<Rightarrow> ustr \<Rightarrow> ustr" where
  "replace old new [] = []"
| "replace old new (c # cs) =
     (if old \<noteq> [] \<and> prefix old (c # cs)
      then new @ replace old new (drop (length old - 1) cs)
      else c # replace old new cs)"

text \<open>\<open>sub in s\<close> on strings: \<open>sub\<close> occurs in \<open>s\<close> as a contiguous run.\<close>

fun contains :: "ustr \<Rightarrow> ustr \<Rightarrow> bool" where
  "contains sub [] = (sub = [])"
| "contains sub (c # cs) = (prefix sub (c # cs) \<or> contains sub cs)"

text \<open>\<open>s.split(sep)[0]\<close>: the text before the first occurrence of \<open>sep\<close>, all of \<open>s\<close>
  when there is none.\<close>

fun before_first :: "ustr \<Rightarrow> ustr \<Rightarrow> ustr" where
  "before_first sep [] = []"
| "before_first sep (c # cs) =
     (if prefix sep (c # cs) then [] else c # before_first sep cs)"

text \<open>\<open>s.split(sep, 1)[1]\<close>: the text after the first occurrence of \<open>sep\<close>. The source
  calls it only where \<open>sep in s\<close> holds; without an occurrence Python raises IndexError,
  which is \<open>None\<close> here.\<close>

fun after_first :: "ustr \<Rightarrow> ustr \<Rightarrow> ustr option" where
  "after_first sep [] = (if sep = [] then Some [] else None)"
| "after_first sep (c # cs) =
     (if prefix sep (c # cs) then Some (drop (length sep) (c # cs)) else after_first sep cs)"

text \<open>\<open>s.split('\n')\<close>: the pieces between line feeds, empty pieces included.\<close>

fun split_lines_acc :: "ustr \<Rightarrow> ustr \<Rightarrow> ustr list" where
  "split_lines_acc cur [] = [cur]"
| "split_lines_acc cur (c # cs) =
     (if c = 10 then cur # split_lines_acc [] cs else split_lines_acc (cur @ [c]) cs)"

definition split_lines :: "ustr \<Rightarrow> ustr list" where
  "split_lines s = split_lines_acc [] s"

text \<open>
  \<open>str.lower\<close> is a library function over all of Unicode; the model takes it as the
  parameter \<open>lower\<close>, so every theorem holds for whatever it computes. \<open>lower_tr\<close> is the
  instance used on concrete inputs: it agrees with Python on strings made of ASCII and
  the Turkish capitals (U+00C7, U+011E, U+0130, U+00D6, U+015E, U+00DC).
\<close>

definition lower_cp :: "int \<Rightarrow> ustr" where
  "lower_cp c =
     (if 65 \<le> c \<and> c \<le> 90 then [c + 32]
      else if c = 199 then [231]
      else if c = 286 then [287]
      else if c = 304 then [105, 775]
      else if c = 214 then [246]
      else if c = 350 then [351]
      else if c = 220 then [252]
      else [c])"

definition lower_tr :: "ustr \<Rightarrow> ustr" where
  "lower_tr s = concat (map lower_cp s)"

section \<open>Directory records and the index\<close>

datatype error = IndexError | AttributeError | JSONDecodeError | TypeError | ValueError | OverflowError

text \<open>A row of the user data frame; also the \<open>matched_user\<close> and \<open>user_details\<close>
  dictionaries of \<open>main.py\<close>, which have the same three keys.\<close>

record user =
  user_id :: int
  full_name :: ustr
  email_address :: ustr

text \<open>
  The search variations of one row. \<open>first_name\<close> is \<open>full_name.split()[0]\<close>, which
  raises IndexError when the name has no token.
\<close>

definition first_name :: "ustr \<Rightarrow> error + ustr" where
  "first_name fn = (case split_ws fn of [] \<Rightarrow> Inl IndexError | t # _ \<Rightarrow> Inr t)"

definition last_name :: "ustr \<Rightarrow> ustr" where
  "last_name fn = (if length (split_ws fn) > 1 then last (split_ws fn) else fn)"

definition fold_diacritics :: "ustr \<Rightarrow> ustr" where
  "fold_diacritics fn =
     replace_char 252 117 (replace_char 351 115 (replace_char 246 111
       (replace_char 305 105 (replace_char 287 103 (replace_char 231 99 fn)))))"

definition without_titles :: "ustr \<Rightarrow> ustr" where
  "without_titles fn = strip (replace (cp '', phd'') [] (replace (cp '', ph.d'') [] fn))"

definition common_variations :: "ustr \<Rightarrow> ustr" where
  "common_variations fn =
     replace (231 # cp ''elik'') (cp ''celik'') (replace (351 # cp ''ahin'') (cp ''sahin'') fn)"

text \<open>\<open>VectorNameResolver._index_users\<close> of \<open>main.py\<close>: the list \<open>variants\<close> of one row.\<close>

definition variants :: "(ustr \<Rightarrow> ustr) \<Rightarrow> user \<Rightarrow> error + ustr list" where
  "variants lower u =
     (let fn = lower (full_name u);
          email_prefix = lower (before_first [64] (email_address u))
      in case first_name fn of
           Inl e \<Rightarrow> Inl e
         | Inr first \<Rightarrow>
             Inr [fn, fold_diacritics fn, first, last_name fn,
                  email_prefix, replace_char 46 32 email_prefix])"

text \<open>\<open>VectorDatabaseManager._index_users\<close> of the package: two more variations.\<close>

definition variants_core :: "(ustr \<Rightarrow> ustr) \<Rightarrow> user \<Rightarrow> error + ustr list" where
  "variants_core lower u =
     (let fn = lower (full_name u);
          email_prefix = lower (before_first [64] (email_address u))
      in case first_name fn of
           Inl e \<Rightarrow> Inl e
         | Inr first \<Rightarrow>
             Inr [fn, fold_diacritics fn, first, last_name fn,
                  email_prefix, replace_char 46 32 email_prefix,
                  without_titles fn, common_variations fn])"

text \<open>
  \<open>for variant in set(variants): if variant.strip(): ...\<close> appends one entry per distinct
  non-blank variant. Python leaves the iteration order of a set open; the model lists
  the entries in order of last occurrence (\<open>remdups\<close>), and the theorems below speak of
  membership and multiplicity only.
\<close>

definition entries_of :: "user \<Rightarrow> ustr list \<Rightarrow> (ustr \<times> user) list" where
  "entries_of u vs = map (\<lambda>v. (v, u)) (filter (\<lambda>v. strip v \<noteq> []) (remdups vs))"

text \<open>
  The loop over the rows. The result is the pair list (\<open>texts\<close>, \<open>metadatas\<close>) handed to
  the embedding model and the collection; an exception in any row aborts the build.
\<close>

fun index_rows :: "(user \<Rightarrow> error + ustr list) \<Rightarrow> user list \<Rightarrow> error + (ustr \<times> user) list" where
  "index_rows vf [] = Inr []"
| "index_rows vf (u # us) =
     (case vf u of
        Inl e \<Rightarrow> Inl e
      | Inr vs \<Rightarrow>
          (case index_rows vf us of
             Inl e \<Rightarrow> Inl e
           | Inr rest \<Rightarrow> Inr (entries_of u vs @ rest)))"

definition index_users :: "(ustr \<Rightarrow> ustr) \<Rightarrow> user list \<Rightarrow> error + (ustr \<times> user) list" where
  "index_users lower df_user = index_rows (variants lower) df_user"

definition index_users_core :: "(ustr \<Rightarrow> ustr) \<Rightarrow> user list \<Rightarrow> error + (ustr \<times> user) list" where
  "index_users_core lower df_user = index_rows (variants_core lower) df_user"

section \<open>Name search\<close>

text \<open>
  Similarities are Python floats; the model computes with exact rationals. \<open>round3\<close> is
  \<open>round(x, 3)\<close>: to the nearest multiple of one thousandth, a tie going to the even one.
\<close>

definition round_half_even :: "rat \<Rightarrow> int" where
  "round_half_even x =
     (let f = \<lfloor>x\<rfloor>; d = x - of_int f
      in if d < 1 / 2 then f else if 1 / 2 < d then f + 1 else if even f then f else f + 1)"

definition round3 :: "rat \<Rightarrow> rat" where
  "round3 x = of_int (round_half_even (x * 1000)) / 1000"

text \<open>
  One raw hit of the collection query: the metadata stored with the variant and the
  distance. The embedding model and the nearest-neighbour query are external; the
  model takes them as the parameter \<open>query\<close>, from the lowercased name to the hits in
  the order the collection returns them.
\<close>

type_synonym hit = "user \<times> rat"

record candidate = user +
  similarity :: rat

text \<open>
  The body of the loop ``Group by user''. \<open>user_matches\<close> is a Python dictionary, which
  keeps its keys in insertion order and leaves a key in place when its value is
  replaced: an association list under \<open>AList.update\<close>.
\<close>

definition group_step :: "rat \<Rightarrow> (int \<times> candidate) list \<Rightarrow> hit \<Rightarrow> (int \<times> candidate) list" where
  "group_step threshold user_matches h =
     (let metadata = fst h; sim = 1 - snd h
      in if sim \<ge> threshold
         then (let uid = user_id metadata
               in if map_of user_matches uid = None
                     \<or> sim > similarity (the (map_of user_matches uid))
                  then AList.update uid
                         \<lparr>user_id = uid, full_name = full_name metadata,
                          email_address = email_address metadata,
                          similarity = round3 sim\<rparr> user_matches
                  else user_matches)
         else user_matches)"

definition group_by_user :: "rat \<Rightarrow> hit list \<Rightarrow> (int \<times> candidate) list" where
  "group_by_user threshold hits =
     fold (\<lambda>h user_matches. group_step threshold user_matches h) hits []"

text \<open>\<open>unique_users\<close> in \<open>main.py\<close>: the values, then a stable sort by similarity,
  largest first. In the package (\<open>unique_users_core\<close>) the values are left as they are.\<close>

definition unique_users :: "rat \<Rightarrow> hit list \<Rightarrow> candidate list" where
  "unique_users threshold hits =
     sort_key (\<lambda>x. - similarity x) (map snd (group_by_user threshold hits))"

definition unique_users_core :: "rat \<Rightarrow> hit list \<Rightarrow> candidate list" where
  "unique_users_core threshold hits = map snd (group_by_user threshold hits)"

record named =
  input_name :: ustr

record 'u resolved = named +
  matched_user :: 'u
  similarity_score :: rat

record partial_match = named +
  candidates :: "candidate list"

record 'u results =
  resolved_names :: "'u resolved list"
  partial_matches :: "partial_match list"
  ambiguous_names :: "ustr list"
  needs_clarification :: bool

definition empty_results :: "'u results" where
  "empty_results =
     \<lparr>resolved_names = [], partial_matches = [], ambiguous_names = [],
      needs_clarification = False\<rparr>"

text \<open>
  \<open>VectorNameResolver.search_names\<close> of \<open>main.py\<close>: the body of the loop over the
  input names, then the loop. (The constant \<open>match_type\<close> tag of a resolved entry is
  left out.)
\<close>

definition search_step ::
  "(ustr \<Rightarrow> ustr) \<Rightarrow> (ustr \<Rightarrow> hit list) \<Rightarrow> rat \<Rightarrow> user results \<Rightarrow> ustr \<Rightarrow> user results" where
  "search_step lower query threshold results name =
     (if strip name = [] then results
      else
        (let unique_users = unique_users threshold (query (lower name))
         in if length unique_users = 1
            then (let user = unique_users ! 0
                  in results\<lparr>resolved_names := resolved_names results @
                       [\<lparr>input_name = name,
                         matched_user = \<lparr>user_id = user_id user, full_name = full_name user,
                                         email_address = email_address user\<rparr>,
                         similarity_score = similarity user\<rparr>]\<rparr>)
            else if length unique_users > 1
            then results\<lparr>partial_matches := partial_matches results @
                           [\<lparr>input_name = name, candidates = take 5 unique_users\<rparr>],
                         ambiguous_names := ambiguous_names results @ [name],
                         needs_clarification := True\<rparr>
            else results\<lparr>ambiguous_names := ambiguous_names results @ [name],
                         needs_clarification := True\<rparr>))"

definition search_names ::
  "(ustr \<Rightarrow> ustr) \<Rightarrow> (ustr \<Rightarrow> hit list) \<Rightarrow> ustr list \<Rightarrow> rat \<Rightarrow> user results" where
  "search_names lower query input_names threshold =
     fold (\<lambda>name results. search_step lower query threshold results name)
       input_names empty_results"

text \<open>
  \<open>VectorDatabaseManager.search_names\<close> of the package: no sort, no truncation, and
  the resolved entry holds the candidate dictionary itself.
\<close>

definition search_step_core ::
  "(ustr \<Rightarrow> ustr) \<Rightarrow> (ustr \<Rightarrow> hit list) \<Rightarrow> rat \<Rightarrow> candidate results \<Rightarrow> ustr
     \<Rightarrow> candidate results" where
  "search_step_core lower query threshold results name =
     (if strip name = [] then results
      else
        (let unique_users = unique_users_core threshold (query (lower name))
         in if length unique_users = 1
            then results\<lparr>resolved_names := resolved_names results @
                   [\<lparr>input_name = name, matched_user = unique_users ! 0,
                     similarity_score = similarity (unique_users ! 0)\<rparr>]\<rparr>
            else if length unique_users > 1
            then results\<lparr>partial_matches := partial_matches results @
                           [\<lparr>input_name = name, candidates = unique_users\<rparr>],
                         ambiguous_names := ambiguous_names results @ [name],
                         needs_clarification := True\<rparr>
            else results\<lparr>ambiguous_names := ambiguous_names results @ [name],
                         needs_clarification := True\<rparr>))"

definition search_names_core ::
  "(ustr \<Rightarrow> ustr) \<Rightarrow> (ustr \<Rightarrow> hit list) \<Rightarrow> ustr list \<Rightarrow> rat \<Rightarrow> candidate results" where
  "search_names_core lower query input_names threshold =
     fold (\<lambda>name results. search_step_core lower query threshold results name)
       input_names empty_results"

text \<open>
  The specification's view of one query, in its own words: the hits grouped by
  person, the best similarity of a person, and the groups that clear the threshold.
\<close>

definition hit_similarity :: "hit \<Rightarrow> rat" where
  "hit_similarity h = 1 - snd h"

definition hits_of_person :: "hit list \<Rightarrow> int \<Rightarrow> hit list" where
  "hits_of_person hits p = filter (\<lambda>h. user_id (fst h) = p) hits"

definition best_similarity :: "hit list \<Rightarrow> int \<Rightarrow> rat" where
  "best_similarity hits p = Max (set (map hit_similarity (hits_of_person hits p)))"

definition groups_cleared :: "rat \<Rightarrow> hit list \<Rightarrow> int list" where
  "groups_cleared threshold hits =
     filter (\<lambda>p. best_similarity hits p \<ge> threshold) (remdups (map (\<lambda>h. user_id (fst h)) hits))"

text \<open>Auxiliary notions for the loop invariant of the grouping: the hits of person \<open>k\<close>
  that clear the threshold, and what the dictionary must hold for \<open>k\<close> after the hits
  \<open>hs\<close>.\<close>

definition clearing :: "rat \<Rightarrow> hit list \<Rightarrow> int \<Rightarrow> hit list" where
  "clearing t hs k = filter (\<lambda>h. user_id (fst h) = k \<and> t \<le> 1 - snd h) hs"

definition entry_ok :: "rat \<Rightarrow> hit list \<Rightarrow> int \<Rightarrow> candidate option \<Rightarrow> bool" where
  "entry_ok t hs k e =
     (case e of
        None \<Rightarrow> clearing t hs k = []
      | Some c \<Rightarrow> clearing t hs k \<noteq> [] \<and> user_id c = k \<and>
          similarity c = round3 (Max (set (map hit_similarity (clearing t hs k)))))"

section \<open>Clarification\<close>

text \<open>
  \<open>create_meeting_with_resolved_names\<close> of \<open>main.py\<close> merges the user's answer into the
  search results. Its three arguments arrive as JSON text, and the JSON decoder is a
  library function, so the model takes what \<open>json.loads\<close> returns: \<open>meeting_info\<close> for
  \<open>meeting_info_json\<close> and \<open>loaded\<close> for the answer, \<open>None\<close> when it raises (a decoded
  dictionary has every key once). For \<open>search_results_json\<close> it takes the decoded
  value as the \<open>user results\<close> that \<open>search_names\<close> builds and the caller hands back
  unchanged, \<open>None\<close> again when the decoder raises. The whole body of the tool is one
  \<open>try\<close>: every exception ends in the \<open>except\<close> branch, which returns an error
  record without attendees, \<open>Inl\<close> here.
\<close>

datatype json =
    JNull
  | JBool bool
  | JNum rat
  | JStr ustr
  | JList "json list"
  | JDict "(ustr \<times> json) list"

text \<open>
  The meeting that the tool returns. The e-mail text \<open>body\<close> is formatted from the
  attendee names (joined with a comma), the subject and the purpose; the model keeps
  these three instead of the text.
\<close>

record meeting =
  attendee_names :: "ustr list"
  purpose :: json
  endTime :: ustr
  meeting_duration :: json
  startTime :: ustr
  subject :: json
  user_details :: "user list"

definition details :: "'a user_scheme \<Rightarrow> user" where
  "details x = \<lparr>user_id = user_id x, full_name = full_name x, email_address = email_address x\<rparr>"

definition startswith :: "ustr \<Rightarrow> ustr \<Rightarrow> bool" where
  "startswith s p = prefix p s"

text \<open>
  One line of the fallback parse: for a line holding \<open>". "\<close> the text after its first occurrence, cut before the first \<open>" ("\<close>; else
  the text before the first \<open>" ("\<close>; else the line.
\<close>

definition name_part :: "ustr \<Rightarrow> ustr" where
  "name_part line =
     (case after_first (cp ''. '') line of
        Some rest \<Rightarrow> strip (before_first (cp '' ('') rest)
      | None \<Rightarrow>
          (if contains (cp '' ('') line then strip (before_first (cp '' ('') line) else line))"

definition fallback_choices :: "ustr \<Rightarrow> ustr list" where
  "fallback_choices clarification_choice =
     map name_part
       (filter (\<lambda>line. line \<noteq> []) (map strip (split_lines (strip clarification_choice))))"

text \<open>The values under \<open>name\<close> of the dictionaries nested in a dictionary answer.\<close>

fun nested_names :: "(ustr \<times> json) list \<Rightarrow> json list" where
  "nested_names [] = []"
| "nested_names ((key, JDict v) # kvs) =
     (case map_of v (cp ''name'') of
        Some n \<Rightarrow> n # nested_names kvs
      | None \<Rightarrow> nested_names kvs)"
| "nested_names ((key, value) # kvs) = nested_names kvs"

text \<open>
  ``Parse user's clarification choice''. A choice taken from decoded JSON can be any
  JSON value, so the choices are JSON values.
\<close>

definition clarification_choices :: "ustr \<Rightarrow> json option \<Rightarrow> json list" where
  "clarification_choices clarification_choice loaded =
     (if \<not> startswith clarification_choice [123] \<and> \<not> startswith clarification_choice [91]
      then [JStr (strip clarification_choice)]
      else
        (case loaded of
           None \<Rightarrow> map JStr (fallback_choices clarification_choice)
         | Some (JDict d) \<Rightarrow>
             (case map_of d (cp ''name'') of
                Some n \<Rightarrow> [n]
              | None \<Rightarrow>
                  (if map_of d (350 # cp ''ahin'') \<noteq> None then nested_names d else []))
         | Some (JList xs) \<Rightarrow> xs
         | Some _ \<Rightarrow> []))"

text \<open>\<open>s.replace(' ', '')\<close>.\<close>

definition remove_spaces :: "ustr \<Rightarrow> ustr" where
  "remove_spaces s = filter (\<lambda>c. c \<noteq> 32) s"

text \<open>The test ``More flexible matching'' of one choice against one candidate.\<close>

definition name_matches :: "(ustr \<Rightarrow> ustr) \<Rightarrow> ustr \<Rightarrow> candidate \<Rightarrow> bool" where
  "name_matches lower choice candidate =
     (let choice_lower = lower choice;
          candidate_lower = lower (full_name candidate)
      in contains choice_lower candidate_lower \<or>
         contains candidate_lower choice_lower \<or>
         contains (remove_spaces choice_lower) (remove_spaces candidate_lower) \<or>
         contains (remove_spaces candidate_lower) (remove_spaces choice_lower))"

text \<open>
  The three nested iterations of ``Find the selected user from the candidates''.
  \<open>choice.lower()\<close> raises AttributeError on a choice that is not a string; \<open>break\<close> leaves
  the innermost iteration only. The state is the pair of the lists
  \<open>resolved_names\<close> and \<open>user_details\<close>.
\<close>

fun match_candidates :: "(ustr \<Rightarrow> ustr) \<Rightarrow> json \<Rightarrow> candidate list \<Rightarrow> error + candidate option" where
  "match_candidates lower choice [] = Inr None"
| "match_candidates lower (JStr s) (candidate # rest) =
     (if name_matches lower s candidate then Inr (Some candidate)
      else match_candidates lower (JStr s) rest)"
| "match_candidates lower choice (candidate # rest) = Inl AttributeError"

fun match_choices ::
  "(ustr \<Rightarrow> ustr) \<Rightarrow> candidate list \<Rightarrow> json list \<Rightarrow> ustr list \<times> user list
     \<Rightarrow> error + ustr list \<times> user list" where
  "match_choices lower cands [] acc = Inr acc"
| "match_choices lower cands (choice # rest) acc =
     (case match_candidates lower choice cands of
        Inl e \<Rightarrow> Inl e
      | Inr None \<Rightarrow> match_choices lower cands rest acc
      | Inr (Some candidate) \<Rightarrow>
          match_choices lower cands rest
            (fst acc @ [full_name candidate], snd acc @ [details candidate]))"

fun match_partials ::
  "(ustr \<Rightarrow> ustr) \<Rightarrow> json list \<Rightarrow> partial_match list \<Rightarrow> ustr list \<times> user list
     \<Rightarrow> error + ustr list \<times> user list" where
  "match_partials lower choices [] acc = Inr acc"
| "match_partials lower choices (partial_match # rest) acc =
     (case match_choices lower (candidates partial_match) choices acc of
        Inl e \<Rightarrow> Inl e
      | Inr acc' \<Rightarrow> match_partials lower choices rest acc')"

text \<open>\<open>d.get(key, default)\<close> on a decoded dictionary.\<close>

definition dict_get :: "(ustr \<times> json) list \<Rightarrow> ustr \<Rightarrow> json \<Rightarrow> json" where
  "dict_get d key dflt = (case map_of d key of Some v \<Rightarrow> v | None \<Rightarrow> dflt)"

text \<open>\<open>x.lower()\<close> on a decoded value: only a string has the method.\<close>

definition lower_of :: "(ustr \<Rightarrow> ustr) \<Rightarrow> json \<Rightarrow> error + ustr" where
  "lower_of lower x = (case x of JStr s \<Rightarrow> Inr (lower s) | _ \<Rightarrow> Inl AttributeError)"

text \<open>
  ``Parse datetime'': the day offset and the hour, read from the lowercased
  descriptions by their Turkish key words (tomorrow, today, two weeks; morning, noon,
  evening).
\<close>

definition days_ahead :: "ustr \<Rightarrow> int" where
  "days_ahead date_lower =
     (if contains (cp ''yar'' @ 305 # cp ''n'') date_lower then 1
      else if contains (cp ''bug'' @ 252 # cp ''n'') date_lower then 0
      else if contains (cp ''2 hafta'') date_lower then 14
      else 1)"

definition hour_of :: "ustr \<Rightarrow> int" where
  "hour_of time_lower =
     (if contains (cp ''sabah'') time_lower then 9
      else if contains (246 # 287 # cp ''le'') time_lower then 12
      else if contains (cp ''ak'' @ 351 # cp ''am'') time_lower then 17
      else 14)"

text \<open>
  The tool itself. The date arithmetic on the current time
  (\<open>base_time.replace(...)\<close>, \<open>start_time + timedelta(minutes=duration)\<close>, \<open>isoformat\<close>) is
  the \<open>datetime\<close> library's; the model takes it as the parameter \<open>schedule\<close>, from the
  day offset, the hour and the decoded duration to the start and end texts, or to
  the exception it raises (a duration that is not a number, a date out of range).
\<close>

definition create_meeting_with_resolved_names ::
  "(ustr \<Rightarrow> ustr) \<Rightarrow> (int \<Rightarrow> int \<Rightarrow> json \<Rightarrow> error + ustr \<times> ustr) \<Rightarrow> json option
     \<Rightarrow> user results option \<Rightarrow> ustr \<Rightarrow> json option \<Rightarrow> error + meeting" where
  "create_meeting_with_resolved_names lower schedule meeting_info decoded_results
       clarification_choice loaded =
     (case meeting_info of
        None \<Rightarrow> Inl JSONDecodeError
      | Some info \<Rightarrow>
          (case decoded_results of
             None \<Rightarrow> Inl JSONDecodeError
           | Some search_results \<Rightarrow>
               (case info of
                  JDict d \<Rightarrow>
                    (let subject = dict_get d (cp ''subject'') (JStr (cp ''Toplant'' @ [305]));
                         purpose = dict_get d (cp ''purpose'')
                                     (JStr (cp ''toplant'' @ 305 # cp '' d'' @ 252 # cp ''zenleme''));
                         duration = dict_get d (cp ''duration_minutes'') (JNum 30);
                         date_desc = dict_get d (cp ''date_description'')
                                       (JStr (cp ''yar'' @ 305 # cp ''n''));
                         time_desc = dict_get d (cp ''time_description'')
                                       (JStr (246 # 287 # cp ''leden sonra''));
                         names = map (\<lambda>resolved. full_name (matched_user resolved))
                                   (resolved_names search_results);
                         users = map (\<lambda>resolved. details (matched_user resolved))
                                   (resolved_names search_results);
                         choices = clarification_choices clarification_choice loaded
                     in case match_partials lower choices (partial_matches search_results)
                               (names, users) of
                          Inl e \<Rightarrow> Inl e
                        | Inr (names', users') \<Rightarrow>
                            (case lower_of lower date_desc of
                               Inl e \<Rightarrow> Inl e
                             | Inr date_lower \<Rightarrow>
                                 (case lower_of lower time_desc of
                                    Inl e \<Rightarrow> Inl e
                                  | Inr time_lower \<Rightarrow>
                                      (case schedule (days_ahead date_lower)
                                              (hour_of time_lower) duration of
                                         Inl e \<Rightarrow> Inl e
                                       | Inr (start_time, end_time) \<Rightarrow>
                                           Inr \<lparr>attendee_names = names', purpose = purpose,
                                                endTime = end_time, meeting_duration = duration,
                                                startTime = start_time, subject = subject,
                                                user_details = users'\<rparr>))))
                | _ \<Rightarrow> Inl AttributeError)))"

text \<open>
  The part of the tool that does not look at the names: the meeting information is
  a dictionary, its date and time descriptions are strings, and the date arithmetic
  raises nothing.
\<close>

definition meeting_info_ok ::
  "(ustr \<Rightarrow> ustr) \<Rightarrow> (int \<Rightarrow> int \<Rightarrow> json \<Rightarrow> error + ustr \<times> ustr) \<Rightarrow> json option \<Rightarrow> bool" where
  "meeting_info_ok lower schedule meeting_info =
     (case meeting_info of
        Some (JDict d) \<Rightarrow>
          (case lower_of lower (dict_get d (cp ''date_description'')
                                  (JStr (cp ''yar'' @ 305 # cp ''n''))) of
             Inl e \<Rightarrow> False
           | Inr date_lower \<Rightarrow>
               (case lower_of lower (dict_get d (cp ''time_description'')
                                       (JStr (246 # 287 # cp ''leden sonra''))) of
                  Inl e \<Rightarrow> False
                | Inr time_lower \<Rightarrow>
                    \<not> isl (schedule (days_ahead date_lower) (hour_of time_lower)
                             (dict_get d (cp ''duration_minutes'') (JNum 30)))))
      | _ \<Rightarrow> False)"

text \<open>
  The closed form of the three iterations on string choices: for every partial match in
  turn and every choice in turn, the first candidate that the choice matches.
\<close>

definition accepted :: "(ustr \<Rightarrow> ustr) \<Rightarrow> ustr list \<Rightarrow> partial_match list \<Rightarrow> candidate list" where
  "accepted lower labels pending =
     concat (map (\<lambda>pm. concat (map (\<lambda>l. case find (name_matches lower l) (candidates pm) of
                                            None \<Rightarrow> [] | Some c \<Rightarrow> [c]) labels)) pending)"








section \<open>Concrete inputs\<close>

text \<open>Hits and sessions on which the theorems below are evaluated.\<close>

definition example_user :: "int \<Rightarrow> user" where
  "example_user i =
     \<lparr>user_id = i, full_name = cp ''Ahmet'', email_address = cp ''ahmet@company.com''\<rparr>"

definition example_hits :: "hit list" where
  "example_hits =
     [(example_user 2, 1 / 10), (example_user 1, 1 / 10), (example_user 2, 1 / 20),
      (example_user 3, 1 / 4)]"

definition six_hits :: "hit list" where
  "six_hits =
     [(example_user 1, 5 / 100), (example_user 2, 10 / 100), (example_user 3, 15 / 100),
      (example_user 4, 20 / 100), (example_user 5, 25 / 100), (example_user 6, 30 / 100),
      (example_user 3, 12 / 100)]"

definition tie_hits :: "hit list" where
  "tie_hits = [(example_user 2, 1 / 10), (example_user 1, 1 / 10)]"

definition tie_query :: "ustr \<Rightarrow> hit list" where
  "tie_query name = tie_hits"

definition example_session :: "user results" where
  "example_session =
     \<lparr>resolved_names =
        [\<lparr>input_name = cp ''Arda'',
          matched_user = \<lparr>user_id = 10, full_name = cp ''Arda Or'' @ 231 # cp ''un'',
                          email_address = cp ''arda.orcun@company.com''\<rparr>,
          similarity_score = 17 / 20\<rparr>],
      partial_matches =
        [\<lparr>input_name = cp ''Ahmet'',
          candidates =
            [\<lparr>user_id = 1, full_name = cp ''Ahmet Y'' @ 305 # cp ''lmaz'',
              email_address = cp ''ahmet.yilmaz@company.com'', similarity = 9 / 10\<rparr>,
             \<lparr>user_id = 2, full_name = cp ''Ahmet Kaya'',
              email_address = cp ''ahmet.kaya@company.com'', similarity = 9 / 10\<rparr>,
             \<lparr>user_id = 3, full_name = cp ''Ahmet '' @ 214 # cp ''zkan'',
              email_address = cp ''a.ozkan@company.com'', similarity = 89 / 100\<rparr>]\<rparr>],
      ambiguous_names = [cp ''Ahmet''],
      needs_clarification = True\<rparr>"

text \<open>A schedule that raises TypeError on a duration that is not a number, as
  \<open>timedelta\<close> does, and otherwise returns two fixed texts; and a meeting information.\<close>

definition example_schedule :: "int \<Rightarrow> int \<Rightarrow> json \<Rightarrow> error + ustr \<times> ustr" where
  "example_schedule days hour duration =
     (case duration of
        JNum n \<Rightarrow> Inr (cp ''2025-01-02T14:00:00+03:00'', cp ''2025-01-02T15:30:00+03:00'')
      | _ \<Rightarrow> Inl TypeError)"

definition example_meeting_info :: "json option" where
  "example_meeting_info =
     Some (JDict [(cp ''subject'', JStr (cp ''Proje'')),
                  (cp ''duration_minutes'', JNum 90),
                  (cp ''date_description'', JStr (cp ''yar'' @ 305 # cp ''n'')),
                  (cp ''time_description'', JStr (cp ''sabah''))])"


definition duplicate_rows :: "user list" where
  "duplicate_rows =
     [\<lparr>user_id = 1, full_name = cp ''Ali Demir'', email_address = cp ''ali@company.com''\<rparr>,
      \<lparr>user_id = 1, full_name = cp ''Ali Kaya'', email_address = cp ''ali@company.com''\<rparr>]"

definition sahin_nicat :: user where
  "sahin_nicat =
     \<lparr>user_id = 9, full_name = 350 # cp ''ahin Nicat, Ph.D'',
      email_address = cp ''snicat@company.com''\<rparr>"

section \<open>Rounding\<close>

lemma round_half_even_mono: "x \<le> y \<Longrightarrow> round_half_even x \<le> round_half_even y"
proof -
  assume xy: "x \<le> y"
  have fl: "\<lfloor>x\<rfloor> \<le> \<lfloor>y\<rfloor>" using xy by (rule floor_mono)
  have lo: "\<And>z. \<lfloor>z\<rfloor> \<le> round_half_even z" by (simp add: round_half_even_def Let_def)
  have hi: "\<And>z. round_half_even z \<le> \<lfloor>z\<rfloor> + 1" by (simp add: round_half_even_def Let_def)
  show ?thesis
  proof (cases "\<lfloor>x\<rfloor> = \<lfloor>y\<rfloor>")
    case True
    then have "x - of_int \<lfloor>x\<rfloor> \<le> y - of_int \<lfloor>y\<rfloor>" using xy by simp
    then show ?thesis using True by (auto simp: round_half_even_def Let_def)
  next
    case False
    then have "\<lfloor>x\<rfloor> + 1 \<le> \<lfloor>y\<rfloor>" using fl by linarith
    then show ?thesis using lo[of y] hi[of x] by linarith
  qed
qed

lemma round_half_even_of_int: "round_half_even (of_int k) = k"
  by (simp add: round_half_even_def Let_def)

lemma round3_mono: "x \<le> y \<Longrightarrow> round3 x \<le> round3 y"
  by (simp add: round3_def round_half_even_mono divide_right_mono)

lemma round3_idem: "round3 (round3 x) = round3 x"
  by (simp add: round3_def round_half_even_of_int)

lemma round3_max_replace: "round3 m < s \<Longrightarrow> round3 (max m s) = round3 s"
proof -
  assume a: "round3 m < s"
  show ?thesis
  proof (cases "m \<le> s")
    case True then show ?thesis by (simp add: max_def)
  next
    case False
    then have "round3 s \<le> round3 m" by (simp add: round3_mono)
    moreover have "round3 (round3 m) \<le> round3 s" using a by (intro round3_mono) simp
    ultimately show ?thesis using False by (simp add: max_def round3_idem)
  qed
qed

lemma round3_max_keep: "\<not> round3 m < s \<Longrightarrow> round3 (max m s) = round3 m"
proof -
  assume a: "\<not> round3 m < s"
  show ?thesis
  proof (cases "m \<le> s")
    case False then show ?thesis by (simp add: max_def)
  next
    case True
    then have "round3 m \<le> round3 s" by (simp add: round3_mono)
    moreover have "round3 s \<le> round3 (round3 m)" using a by (intro round3_mono) simp
    ultimately show ?thesis using True by (simp add: max_def round3_idem)
  qed
qed

section \<open>The grouping loop\<close>

lemma group_by_user_snoc:
  "group_by_user t (hs @ [h]) = group_step t (group_by_user t hs) h"
  by (simp add: group_by_user_def)

lemma group_step_keys:
  "map fst (group_step t um h) =
     (if t \<le> 1 - snd h \<and> user_id (fst h) \<notin> set (map fst um)
      then map fst um @ [user_id (fst h)] else map fst um)"
  by (auto simp: group_step_def Let_def update_keys map_of_eq_None_iff)

lemma group_by_user_distinct: "distinct (map fst (group_by_user t hs))"
proof (induction hs rule: rev_induct)
  case Nil
  then show ?case by (simp add: group_by_user_def)
next
  case (snoc h hs)
  then show ?case by (simp add: group_by_user_snoc group_step_keys)
qed

lemma group_by_user_keys:
  "set (map fst (group_by_user t hs)) =
     set (map (\<lambda>h. user_id (fst h)) (filter (\<lambda>h. t \<le> 1 - snd h) hs))"
proof (induction hs rule: rev_induct)
  case Nil
  then show ?case by (simp add: group_by_user_def)
next
  case (snoc h hs)
  show ?case
  proof (cases "t \<le> 1 - snd h")
    case True
    then show ?thesis
      unfolding group_by_user_snoc group_step_keys using snoc by (simp add: insert_absorb)
  next
    case False
    then show ?thesis
      unfolding group_by_user_snoc group_step_keys using snoc by simp
  qed
qed

lemma group_by_user_length:
  "length (group_by_user t hs) =
     card (set (map (\<lambda>h. user_id (fst h)) (filter (\<lambda>h. t \<le> 1 - snd h) hs)))"
proof -
  have "length (group_by_user t hs) = length (map fst (group_by_user t hs))" by simp
  also have "\<dots> = card (set (map fst (group_by_user t hs)))"
    using group_by_user_distinct[of t hs] by (simp only: distinct_card)
  finally show ?thesis by (simp only: group_by_user_keys)
qed

lemma group_by_user_mono:
  assumes "t1 \<le> t2"
  shows "length (group_by_user t2 hs) \<le> length (group_by_user t1 hs)"
proof -
  have "set (filter (\<lambda>h. t2 \<le> 1 - snd h) hs) \<subseteq> set (filter (\<lambda>h. t1 \<le> 1 - snd h) hs)"
    using assms by auto
  then have "set (map (\<lambda>h. user_id (fst h)) (filter (\<lambda>h. t2 \<le> 1 - snd h) hs))
           \<subseteq> set (map (\<lambda>h. user_id (fst h)) (filter (\<lambda>h. t1 \<le> 1 - snd h) hs))"
    unfolding set_map by (rule image_mono)
  then show ?thesis
    unfolding group_by_user_length by (intro card_mono) simp_all
qed

lemma map_of_group_step:
  "map_of (group_step t um h) k =
     (if t \<le> 1 - snd h \<and> user_id (fst h) = k \<and>
         (map_of um k = None \<or> similarity (the (map_of um k)) < 1 - snd h)
      then Some \<lparr>user_id = k, full_name = full_name (fst h),
                 email_address = email_address (fst h), similarity = round3 (1 - snd h)\<rparr>
      else map_of um k)"
  by (auto simp: group_step_def Let_def update_conv')

lemma clearing_snoc:
  "clearing t (hs @ [h]) k =
     (if user_id (fst h) = k \<and> t \<le> 1 - snd h then clearing t hs k @ [h] else clearing t hs k)"
  by (simp add: clearing_def)

lemma Max_snoc:
  "xs \<noteq> [] \<Longrightarrow> Max (set (xs @ [x])) = max (Max (set xs)) (x::rat)"
  by (simp add: max.commute)

lemma entry_ok_step:
  assumes "entry_ok t hs k (map_of um k)"
  shows "entry_ok t (hs @ [h]) k (map_of (group_step t um h) k)"
proof (cases "user_id (fst h) = k \<and> t \<le> 1 - snd h")
  case False
  then have "clearing t (hs @ [h]) k = clearing t hs k"
    and "map_of (group_step t um h) k = map_of um k"
    by (auto simp: map_of_group_step clearing_snoc)
  then show ?thesis using assms by (simp add: entry_ok_def split: option.splits)
next
  case True
  show ?thesis
  proof (cases "map_of um k")
    case None
    then have "clearing t hs k = []" using assms by (simp add: entry_ok_def)
    then show ?thesis using True None
      by (simp add: map_of_group_step clearing_snoc entry_ok_def hit_similarity_def)
  next
    case (Some c)
    define M where "M = Max (set (map hit_similarity (clearing t hs k)))"
    define M' where "M' = Max (set (map hit_similarity (clearing t (hs @ [h]) k)))"
    have ne: "clearing t hs k \<noteq> []" and uc: "user_id c = k" and sc: "similarity c = round3 M"
      using assms Some by (simp_all add: entry_ok_def M_def)
    have cl: "clearing t (hs @ [h]) k = clearing t hs k @ [h]"
      using True by (simp add: clearing_snoc)
    have mx: "M' = max M (1 - snd h)"
      unfolding M'_def M_def cl
      using ne Max_snoc[of "map hit_similarity (clearing t hs k)" "hit_similarity h"]
      by (simp add: hit_similarity_def)
    have ne': "clearing t (hs @ [h]) k \<noteq> []" by (simp add: cl)
    show ?thesis
    proof (cases "similarity c < 1 - snd h")
      case True
      then have "round3 M' = round3 (1 - snd h)"
        unfolding mx using sc by (intro round3_max_replace) simp
      moreover have "map_of (group_step t um h) k =
          Some \<lparr>user_id = k, full_name = full_name (fst h),
                email_address = email_address (fst h), similarity = round3 (1 - snd h)\<rparr>"
        using True \<open>user_id (fst h) = k \<and> t \<le> 1 - snd h\<close> Some by (simp add: map_of_group_step)
      ultimately show ?thesis using ne' by (simp add: entry_ok_def M'_def)
    next
      case False
      then have "round3 M' = round3 M"
        unfolding mx using sc by (intro round3_max_keep) simp
      moreover have "map_of (group_step t um h) k = Some c"
        using False Some by (simp add: map_of_group_step)
      ultimately show ?thesis using ne' uc sc by (simp add: entry_ok_def M'_def)
    qed
  qed
qed

lemma group_by_user_entry: "entry_ok t hs k (map_of (group_by_user t hs) k)"
proof (induction hs rule: rev_induct)
  case Nil
  then show ?case by (simp add: group_by_user_def entry_ok_def clearing_def)
next
  case (snoc h hs)
  then show ?case unfolding group_by_user_snoc by (rule entry_ok_step)
qed

lemma best_similarity_clears_iff:
  "p \<in> set (map (\<lambda>h. user_id (fst h)) hs) \<and> t \<le> best_similarity hs p
     \<longleftrightarrow> clearing t hs p \<noteq> []"
proof
  assume a: "p \<in> set (map (\<lambda>h. user_id (fst h)) hs) \<and> t \<le> best_similarity hs p"
  then have ne: "set (map hit_similarity (hits_of_person hs p)) \<noteq> {}"
    by (auto simp: hits_of_person_def filter_empty_conv)
  have "best_similarity hs p \<in> set (map hit_similarity (hits_of_person hs p))"
    unfolding best_similarity_def using ne by (intro Max_in) simp_all
  then obtain h where "h \<in> set hs" "user_id (fst h) = p" "hit_similarity h = best_similarity hs p"
    by (auto simp: hits_of_person_def)
  then have "h \<in> set (clearing t hs p)" using a by (simp add: clearing_def hit_similarity_def)
  then show "clearing t hs p \<noteq> []" by auto
next
  assume "clearing t hs p \<noteq> []"
  then obtain h where h: "h \<in> set hs" "user_id (fst h) = p" "t \<le> 1 - snd h"
    by (auto simp: clearing_def filter_empty_conv)
  then have "hit_similarity h \<in> set (map hit_similarity (hits_of_person hs p))"
    by (simp add: hits_of_person_def)
  then have "hit_similarity h \<le> best_similarity hs p"
    unfolding best_similarity_def by (intro Max_ge) simp_all
  then show "p \<in> set (map (\<lambda>h. user_id (fst h)) hs) \<and> t \<le> best_similarity hs p"
    using h by (auto simp: hit_similarity_def)
qed

lemma clearing_Max:
  assumes "clearing t hs p \<noteq> []"
  shows "Max (set (map hit_similarity (clearing t hs p))) = best_similarity hs p"
proof -
  have sub: "set (map hit_similarity (clearing t hs p)) \<subseteq> set (map hit_similarity (hits_of_person hs p))"
    by (auto simp: clearing_def hits_of_person_def)
  have ne: "set (map hit_similarity (clearing t hs p)) \<noteq> {}" using assms by simp
  have le: "Max (set (map hit_similarity (clearing t hs p))) \<le> best_similarity hs p"
    unfolding best_similarity_def using sub ne by (intro Max_mono) simp_all
  have cl: "p \<in> set (map (\<lambda>h. user_id (fst h)) hs) \<and> t \<le> best_similarity hs p"
    using assms best_similarity_clears_iff[of p hs t] by blast
  then have ne2: "set (map hit_similarity (hits_of_person hs p)) \<noteq> {}"
    by (auto simp: hits_of_person_def filter_empty_conv)
  have "best_similarity hs p \<in> set (map hit_similarity (hits_of_person hs p))"
    unfolding best_similarity_def using ne2 by (intro Max_in) simp_all
  then obtain h where "h \<in> set hs" "user_id (fst h) = p" "hit_similarity h = best_similarity hs p"
    by (auto simp: hits_of_person_def)
  then have "best_similarity hs p \<in> set (map hit_similarity (clearing t hs p))"
    using cl by (force simp: clearing_def hit_similarity_def)
  then have "best_similarity hs p \<le> Max (set (map hit_similarity (clearing t hs p)))"
    by (intro Max_ge) simp_all
  with le show ?thesis by simp
qed

lemma group_by_user_keys_clearing:
  "k \<in> set (map fst (group_by_user t hs)) \<longleftrightarrow> clearing t hs k \<noteq> []"
  unfolding group_by_user_keys by (auto simp: clearing_def filter_empty_conv)

lemma groups_cleared_set:
  "set (groups_cleared t hs) = set (map fst (group_by_user t hs))"
proof -
  have "\<And>k. k \<in> set (groups_cleared t hs) \<longleftrightarrow> k \<in> set (map fst (group_by_user t hs))"
    unfolding group_by_user_keys_clearing
    using best_similarity_clears_iff by (simp add: groups_cleared_def)
  then show ?thesis by blast
qed

lemma groups_cleared_length: "length (groups_cleared t hs) = length (group_by_user t hs)"
proof -
  have "distinct (groups_cleared t hs)" by (simp add: groups_cleared_def)
  then have "length (groups_cleared t hs) = card (set (groups_cleared t hs))"
    by (simp add: distinct_card)
  also have "\<dots> = card (set (map fst (group_by_user t hs)))" by (simp only: groups_cleared_set)
  also have "\<dots> = length (map fst (group_by_user t hs))"
    using group_by_user_distinct[of t hs] by (simp only: distinct_card)
  finally show ?thesis by simp
qed

lemma group_by_user_candidate:
  assumes "c \<in> set (map snd (group_by_user t hs))"
  shows "similarity c = round3 (best_similarity hs (user_id c))
         \<and> user_id c \<in> set (groups_cleared t hs)
         \<and> (user_id c, c) \<in> set (group_by_user t hs)"
proof -
  from assms obtain k where kc: "(k, c) \<in> set (group_by_user t hs)" by auto
  then have "map_of (group_by_user t hs) k = Some c"
    using group_by_user_distinct[of t hs] by simp
  then have ok: "clearing t hs k \<noteq> [] \<and> user_id c = k \<and>
      similarity c = round3 (Max (set (map hit_similarity (clearing t hs k))))"
    using group_by_user_entry[of t hs k] by (simp add: entry_ok_def)
  then have "similarity c = round3 (best_similarity hs (user_id c))"
    using clearing_Max[of t hs k] by simp
  moreover have "user_id c \<in> set (groups_cleared t hs)"
    unfolding groups_cleared_set using kc ok by force
  ultimately show ?thesis using kc ok by simp
qed

lemma group_by_user_ids_distinct: "distinct (map user_id (map snd (group_by_user t hs)))"
proof -
  have "map user_id (map snd (group_by_user t hs)) = map fst (group_by_user t hs)"
  proof (rule nth_equalityI)
    show "length (map user_id (map snd (group_by_user t hs))) = length (map fst (group_by_user t hs))"
      by simp
  next
    fix i assume "i < length (map user_id (map snd (group_by_user t hs)))"
    then have i: "i < length (group_by_user t hs)" by simp
    then have "snd (group_by_user t hs ! i) \<in> set (map snd (group_by_user t hs))" by simp
    moreover have "(fst (group_by_user t hs ! i), snd (group_by_user t hs ! i)) \<in> set (group_by_user t hs)"
      using i by simp
    then have "map_of (group_by_user t hs) (fst (group_by_user t hs ! i)) = Some (snd (group_by_user t hs ! i))"
      using group_by_user_distinct[of t hs] by simp
    then have "user_id (snd (group_by_user t hs ! i)) = fst (group_by_user t hs ! i)"
      using group_by_user_entry[of t hs "fst (group_by_user t hs ! i)"] by (simp add: entry_ok_def)
    then show "map user_id (map snd (group_by_user t hs)) ! i = map fst (group_by_user t hs) ! i"
      using i by simp
  qed
  then show ?thesis by (simp only: group_by_user_distinct)
qed

section \<open>Matching the choices\<close>

lemma match_candidates_str:
  "match_candidates lower (JStr s) cs = Inr (find (name_matches lower s) cs)"
  by (induction cs) simp_all

lemma match_candidates_error:
  "(\<exists>e. match_candidates lower ch cs = Inl e) \<longleftrightarrow> cs \<noteq> [] \<and> (\<forall>s. ch \<noteq> JStr s)"
proof (cases ch)
  case (JStr s)
  then show ?thesis by (simp add: match_candidates_str)
qed (cases cs; simp)+

lemma match_choices_str:
  "match_choices lower cands (map JStr labels) acc =
     Inr (fst acc @ map full_name (concat (map (\<lambda>l. case find (name_matches lower l) cands of
                                            None \<Rightarrow> [] | Some c \<Rightarrow> [c]) labels)),
          snd acc @ map details (concat (map (\<lambda>l. case find (name_matches lower l) cands of
                                            None \<Rightarrow> [] | Some c \<Rightarrow> [c]) labels)))"
  by (induction labels arbitrary: acc) (simp_all add: match_candidates_str split: option.splits)

lemma match_partials_str:
  "match_partials lower (map JStr labels) pending acc =
     Inr (fst acc @ map full_name (accepted lower labels pending),
          snd acc @ map details (accepted lower labels pending))"
  by (induction pending arbitrary: acc) (simp_all add: match_choices_str accepted_def)

lemma match_choices_prefix:
  "match_choices lower cands choices acc = Inr acc' \<Longrightarrow>
     prefix (fst acc) (fst acc') \<and> prefix (snd acc) (snd acc')"
proof (induction choices arbitrary: acc)
  case Nil
  then show ?case by simp
next
  case (Cons ch choices)
  show ?case
  proof (cases "match_candidates lower ch cands")
    case (Inl e)
    then show ?thesis using Cons.prems by simp
  next
    case (Inr r)
    show ?thesis
    proof (cases r)
      case None
      then show ?thesis using Cons Inr by simp
    next
      case (Some c)
      then have "match_choices lower cands choices
          (fst acc @ [full_name c], snd acc @ [details c]) = Inr acc'"
        using Cons.prems Inr by simp
      from Cons.IH[OF this] show ?thesis by (auto dest: append_prefixD)
    qed
  qed
qed

lemma match_partials_prefix:
  "match_partials lower choices pending acc = Inr acc' \<Longrightarrow>
     prefix (fst acc) (fst acc') \<and> prefix (snd acc) (snd acc')"
proof (induction pending arbitrary: acc)
  case Nil
  then show ?case by simp
next
  case (Cons pm pending)
  then obtain acc1 where a: "match_choices lower (candidates pm) choices acc = Inr acc1"
    and b: "match_partials lower choices pending acc1 = Inr acc'"
    by (auto split: sum.splits)
  from match_choices_prefix[OF a] Cons.IH[OF b] show ?case
    by (auto intro: prefix_order.trans)
qed

lemma match_choices_error:
  "(\<exists>e. match_choices lower cands choices acc = Inl e) \<longleftrightarrow>
     cands \<noteq> [] \<and> (\<exists>ch \<in> set choices. \<forall>s. ch \<noteq> JStr s)"
proof (induction choices arbitrary: acc)
  case Nil
  then show ?case by simp
next
  case (Cons ch choices)
  show ?case
  proof (cases "match_candidates lower ch cands")
    case (Inl e)
    then have "cands \<noteq> [] \<and> (\<forall>s. ch \<noteq> JStr s)"
      using match_candidates_error[of lower ch cands] by auto
    then show ?thesis using Inl by auto
  next
    case (Inr r)
    then have ok: "\<not> (cands \<noteq> [] \<and> (\<forall>s. ch \<noteq> JStr s))"
      using match_candidates_error[of lower ch cands] by auto
    show ?thesis
    proof (cases r)
      case None
      then show ?thesis using Inr ok Cons.IH[of acc] by auto
    next
      case (Some c)
      then show ?thesis using Inr ok Cons.IH[of "(fst acc @ [full_name c], snd acc @ [details c])"]
        by auto
    qed
  qed
qed

lemma match_partials_error:
  "(\<exists>e. match_partials lower choices pending acc = Inl e) \<longleftrightarrow>
     (\<exists>pm \<in> set pending. candidates pm \<noteq> []) \<and> (\<exists>ch \<in> set choices. \<forall>s. ch \<noteq> JStr s)"
proof (induction pending arbitrary: acc)
  case Nil
  then show ?case by simp
next
  case (Cons pm pending)
  show ?case
  proof (cases "match_choices lower (candidates pm) choices acc")
    case (Inl e)
    then show ?thesis using match_choices_error[of lower "candidates pm" choices acc] by auto
  next
    case (Inr acc1)
    then have "\<not> (candidates pm \<noteq> [] \<and> (\<exists>ch \<in> set choices. \<forall>s. ch \<noteq> JStr s))"
      using match_choices_error[of lower "candidates pm" choices acc] by auto
    then show ?thesis using Inr Cons.IH[of acc1] by auto
  qed
qed

section \<open>Properties of the name search\<close>

lemma unique_users_length: "length (unique_users t hs) = length (group_by_user t hs)"
  by (simp add: unique_users_def)

lemma unique_users_core_length: "length (unique_users_core t hs) = length (group_by_user t hs)"
  by (simp add: unique_users_core_def)

text \<open>
  C3. For fixed hits of a name and thresholds \<open>t1 \<le> t2\<close>, the number of persons that
  survive the aggregation at \<open>t2\<close> is at most the number at \<open>t1\<close>: for the groups that
  clear the threshold, for \<open>unique_users\<close> of both implementations, and for the list of
  at most five candidates that \<open>main.py\<close> attaches to a partial match.
\<close>

theorem threshold_monotone:
  assumes "t1 \<le> t2"
  shows "length (groups_cleared t2 hits) \<le> length (groups_cleared t1 hits)
       \<and> length (unique_users_core t2 hits) \<le> length (unique_users_core t1 hits)
       \<and> length (unique_users t2 hits) \<le> length (unique_users t1 hits)
       \<and> length (take 5 (unique_users t2 hits)) \<le> length (take 5 (unique_users t1 hits))"
  using group_by_user_mono[OF assms, of hits]
  by (simp add: groups_cleared_length unique_users_length unique_users_core_length)

theorem threshold_monotone_witness:
  "(7 / 10 :: rat) \<le> 8 / 10
   \<and> length (groups_cleared (8 / 10) example_hits) \<le> length (groups_cleared (7 / 10) example_hits)
   \<and> length (unique_users (7 / 10) example_hits) = 3
   \<and> length (unique_users (8 / 10) example_hits) = 2"
proof -
  have h: "(7 / 10 :: rat) \<le> 8 / 10" by simp
  have "length (unique_users (7 / 10) example_hits) = 3"
    by code_simp
  moreover have "length (unique_users (8 / 10) example_hits) = 2"
    by code_simp
  ultimately show ?thesis using h threshold_monotone[OF h, of example_hits] by simp
qed

lemma search_names_snoc:
  "search_names lower query (names @ [name]) t =
     search_step lower query t (search_names lower query names t) name"
  by (simp add: search_names_def)

lemma search_names_core_snoc:
  "search_names_core lower query (names @ [name]) t =
     search_step_core lower query t (search_names_core lower query names t) name"
  by (simp add: search_names_core_def)

lemma search_names_resolved:
  "resolved_names (search_names lower query names t) =
     map (\<lambda>n. \<lparr>input_name = n,
                matched_user = details (unique_users t (query (lower n)) ! 0),
                similarity_score = similarity (unique_users t (query (lower n)) ! 0)\<rparr>)
       (filter (\<lambda>n. strip n \<noteq> [] \<and> length (group_by_user t (query (lower n))) = 1) names)"
proof (induction names rule: rev_induct)
  case Nil
  then show ?case by (simp add: search_names_def empty_results_def)
next
  case (snoc n names)
  then show ?case
    unfolding search_names_snoc
    by (simp add: search_step_def Let_def unique_users_length details_def)
qed

lemma search_names_partial:
  "partial_matches (search_names lower query names t) =
     map (\<lambda>n. \<lparr>input_name = n, candidates = take 5 (unique_users t (query (lower n)))\<rparr>)
       (filter (\<lambda>n. strip n \<noteq> [] \<and> length (group_by_user t (query (lower n))) > 1) names)"
proof (induction names rule: rev_induct)
  case Nil
  then show ?case by (simp add: search_names_def empty_results_def)
next
  case (snoc n names)
  then show ?case
    unfolding search_names_snoc
    by (simp add: search_step_def Let_def unique_users_length)
qed

lemma search_names_ambiguous:
  "ambiguous_names (search_names lower query names t) =
     filter (\<lambda>n. strip n \<noteq> [] \<and> length (group_by_user t (query (lower n))) \<noteq> 1) names"
proof (induction names rule: rev_induct)
  case Nil
  then show ?case by (simp add: search_names_def empty_results_def)
next
  case (snoc n names)
  then show ?case
    unfolding search_names_snoc
    by (auto simp add: search_step_def Let_def unique_users_length)
qed

lemma search_names_needs:
  "needs_clarification (search_names lower query names t) \<longleftrightarrow>
     filter (\<lambda>n. strip n \<noteq> [] \<and> length (group_by_user t (query (lower n))) \<noteq> 1) names \<noteq> []"
proof (induction names rule: rev_induct)
  case Nil
  then show ?case by (simp add: search_names_def empty_results_def)
next
  case (snoc n names)
  then show ?case
    unfolding search_names_snoc
    by (auto simp add: search_step_def Let_def unique_users_length)
qed

lemma search_names_core_resolved:
  "resolved_names (search_names_core lower query names t) =
     map (\<lambda>n. \<lparr>input_name = n,
                matched_user = unique_users_core t (query (lower n)) ! 0,
                similarity_score = similarity (unique_users_core t (query (lower n)) ! 0)\<rparr>)
       (filter (\<lambda>n. strip n \<noteq> [] \<and> length (group_by_user t (query (lower n))) = 1) names)"
proof (induction names rule: rev_induct)
  case Nil
  then show ?case by (simp add: search_names_core_def empty_results_def)
next
  case (snoc n names)
  then show ?case
    unfolding search_names_core_snoc
    by (simp add: search_step_core_def Let_def unique_users_core_length)
qed

lemma search_names_core_partial:
  "partial_matches (search_names_core lower query names t) =
     map (\<lambda>n. \<lparr>input_name = n, candidates = unique_users_core t (query (lower n))\<rparr>)
       (filter (\<lambda>n. strip n \<noteq> [] \<and> length (group_by_user t (query (lower n))) > 1) names)"
proof (induction names rule: rev_induct)
  case Nil
  then show ?case by (simp add: search_names_core_def empty_results_def)
next
  case (snoc n names)
  then show ?case
    unfolding search_names_core_snoc
    by (simp add: search_step_core_def Let_def unique_users_core_length)
qed

lemma search_names_core_ambiguous:
  "ambiguous_names (search_names_core lower query names t) =
     filter (\<lambda>n. strip n \<noteq> [] \<and> length (group_by_user t (query (lower n))) \<noteq> 1) names"
proof (induction names rule: rev_induct)
  case Nil
  then show ?case by (simp add: search_names_core_def empty_results_def)
next
  case (snoc n names)
  then show ?case
    unfolding search_names_core_snoc
    by (auto simp add: search_step_core_def Let_def unique_users_core_length)
qed

lemma search_names_core_needs:
  "needs_clarification (search_names_core lower query names t) \<longleftrightarrow>
     filter (\<lambda>n. strip n \<noteq> [] \<and> length (group_by_user t (query (lower n))) \<noteq> 1) names \<noteq> []"
proof (induction names rule: rev_induct)
  case Nil
  then show ?case by (simp add: search_names_core_def empty_results_def)
next
  case (snoc n names)
  then show ?case
    unfolding search_names_core_snoc
    by (auto simp add: search_step_core_def Let_def unique_users_core_length)
qed

lemma results_eqI:
  "resolved_names (r::'u results) = resolved_names r' \<Longrightarrow> partial_matches r = partial_matches r' \<Longrightarrow>
   ambiguous_names r = ambiguous_names r' \<Longrightarrow> needs_clarification r = needs_clarification r' \<Longrightarrow>
   r = r'"
  by simp

lemma sorted_unique_users:
  "sorted_wrt (\<lambda>a b. similarity b \<le> similarity a) (unique_users t hs)"
proof -
  have "sorted (map (\<lambda>x. - similarity x) (unique_users t hs))"
    unfolding unique_users_def by (rule sorted_sort_key)
  then show ?thesis by (simp add: sorted_map)
qed

text \<open>
  C10. In the search of \<open>main.py\<close> every partial match carries the first five of the
  sorted unique users of its name: at most five candidates, largest similarity first,
  also when more than five persons clear the threshold.
\<close>

theorem partial_match_top_five:
  "\<forall>pm \<in> set (partial_matches (search_names lower query names t)).
     candidates pm = take 5 (unique_users t (query (lower (input_name pm))))
     \<and> length (candidates pm) \<le> 5
     \<and> sorted_wrt (\<lambda>a b. similarity b \<le> similarity a) (candidates pm)
     \<and> 1 < length (groups_cleared t (query (lower (input_name pm))))"
  unfolding search_names_partial
  by (auto simp: groups_cleared_length intro: sorted_wrt_take sorted_unique_users)

theorem partial_match_top_five_witness:
  "length (groups_cleared (7 / 10) six_hits) = 6
   \<and> map (\<lambda>pm. length (candidates pm))
        (partial_matches (search_names lower_tr (\<lambda>n. six_hits) [cp ''Ahmet''] (7 / 10))) = [5]
   \<and> length (candidates
        (partial_matches (search_names lower_tr (\<lambda>n. six_hits) [cp ''Ahmet''] (7 / 10)) ! 0))
       \<le> 5"
proof -
  let ?pms = "partial_matches (search_names lower_tr (\<lambda>n. six_hits) [cp ''Ahmet''] (7 / 10))"
  have a: "length (groups_cleared (7 / 10) six_hits) = 6" by code_simp
  have b: "map (\<lambda>pm. length (candidates pm)) ?pms = [5]" by code_simp
  have "length (map (\<lambda>pm. length (candidates pm)) ?pms) = 1" by (simp only: b) simp
  then have "0 < length ?pms" by simp
  then have "?pms ! 0 \<in> set ?pms" by (rule nth_mem)
  from partial_match_top_five[of lower_tr "\<lambda>n. six_hits" "[cp ''Ahmet'']" "7 / 10",
      THEN bspec, OF this]
  have c: "length (candidates (?pms ! 0)) \<le> 5" by (elim conjE)
  from a b c show ?thesis by (intro conjI)
qed

text \<open>
  C9. Every non-blank input name yields exactly one outcome, in input order: its name
  is appended either to \<open>resolved_names\<close> (exactly one group cleared the threshold)
  or to \<open>ambiguous_names\<close> (none or several did), and in the latter case with several
  groups also to \<open>partial_matches\<close>. Blank names are skipped: they are in no bucket,
  and removing them from the input changes nothing. This holds for the search of
  \<open>main.py\<close> and for the search of the package.
\<close>

theorem one_outcome_per_name:
  "map input_name (resolved_names (search_names lower query names t)) =
     filter (\<lambda>n. length (groups_cleared t (query (lower n))) = 1)
       (filter (\<lambda>n. strip n \<noteq> []) names)
   \<and> ambiguous_names (search_names lower query names t) =
     filter (\<lambda>n. length (groups_cleared t (query (lower n))) \<noteq> 1)
       (filter (\<lambda>n. strip n \<noteq> []) names)
   \<and> map input_name (partial_matches (search_names lower query names t)) =
     filter (\<lambda>n. 1 < length (groups_cleared t (query (lower n))))
       (filter (\<lambda>n. strip n \<noteq> []) names)
   \<and> length (resolved_names (search_names lower query names t))
       + length (ambiguous_names (search_names lower query names t))
     = length (filter (\<lambda>n. strip n \<noteq> []) names)
   \<and> search_names lower query (filter (\<lambda>n. strip n \<noteq> []) names) t
     = search_names lower query names t
   \<and> map input_name (resolved_names (search_names_core lower query names t)) =
     filter (\<lambda>n. length (groups_cleared t (query (lower n))) = 1)
       (filter (\<lambda>n. strip n \<noteq> []) names)
   \<and> ambiguous_names (search_names_core lower query names t) =
     filter (\<lambda>n. length (groups_cleared t (query (lower n))) \<noteq> 1)
       (filter (\<lambda>n. strip n \<noteq> []) names)
   \<and> map input_name (partial_matches (search_names_core lower query names t)) =
     filter (\<lambda>n. 1 < length (groups_cleared t (query (lower n))))
       (filter (\<lambda>n. strip n \<noteq> []) names)
   \<and> length (resolved_names (search_names_core lower query names t))
       + length (ambiguous_names (search_names_core lower query names t))
     = length (filter (\<lambda>n. strip n \<noteq> []) names)
   \<and> search_names_core lower query (filter (\<lambda>n. strip n \<noteq> []) names) t
     = search_names_core lower query names t"
proof -
  let ?nb = "filter (\<lambda>n. strip n \<noteq> []) names"
  let ?g = "\<lambda>n. length (group_by_user t (query (lower n)))"
  have c: "\<And>P. filter (\<lambda>n. strip n \<noteq> [] \<and> P n) names = filter P ?nb"
    by (simp add: conj_commute)
  have c2: "\<And>P. filter (\<lambda>n. strip n \<noteq> [] \<and> P n) ?nb = filter P ?nb"
    by (simp add: conj_commute cong: conj_cong)
  have len: "length (filter (\<lambda>n. ?g n = 1) ?nb) + length (filter (\<lambda>n. ?g n \<noteq> 1) ?nb) = length ?nb"
    by (rule sum_length_filter_compl)
  have r1: "map input_name (resolved_names (search_names lower query names t)) = filter (\<lambda>n. ?g n = 1) ?nb"
    unfolding search_names_resolved c by (simp add: comp_def)
  have r2: "ambiguous_names (search_names lower query names t) = filter (\<lambda>n. ?g n \<noteq> 1) ?nb"
    unfolding search_names_ambiguous c by simp
  have r3: "map input_name (partial_matches (search_names lower query names t)) = filter (\<lambda>n. 1 < ?g n) ?nb"
    unfolding search_names_partial c by (simp add: comp_def)
  have r4: "length (resolved_names (search_names lower query names t))
       + length (ambiguous_names (search_names lower query names t)) = length ?nb"
    unfolding search_names_resolved search_names_ambiguous c using len by simp
  have r5: "search_names lower query ?nb t = search_names lower query names t"
    by (rule results_eqI)
      (simp_all only: search_names_resolved search_names_partial search_names_ambiguous
         search_names_needs c c2)
  have k1: "map input_name (resolved_names (search_names_core lower query names t)) = filter (\<lambda>n. ?g n = 1) ?nb"
    unfolding search_names_core_resolved c by (simp add: comp_def)
  have k2: "ambiguous_names (search_names_core lower query names t) = filter (\<lambda>n. ?g n \<noteq> 1) ?nb"
    unfolding search_names_core_ambiguous c by simp
  have k3: "map input_name (partial_matches (search_names_core lower query names t)) = filter (\<lambda>n. 1 < ?g n) ?nb"
    unfolding search_names_core_partial c by (simp add: comp_def)
  have k4: "length (resolved_names (search_names_core lower query names t))
       + length (ambiguous_names (search_names_core lower query names t)) = length ?nb"
    unfolding search_names_core_resolved search_names_core_ambiguous c using len by simp
  have k5: "search_names_core lower query ?nb t = search_names_core lower query names t"
    by (rule results_eqI)
      (simp_all only: search_names_core_resolved search_names_core_partial
         search_names_core_ambiguous search_names_core_needs c c2)
  show ?thesis
    unfolding groups_cleared_length using r1 r2 r3 r4 r5 k1 k2 k3 k4 k5 by simp
qed

theorem one_outcome_per_name_witness:
  "map input_name (resolved_names
      (search_names lower_tr (\<lambda>n. if n = cp ''ahmet'' then example_hits
                                 else if n = cp ''ali'' then [(example_user 7, 1 / 10)] else [])
         [cp ''Ahmet'', cp '' '', cp ''Ali'', [], cp ''Zzz''] (7 / 10))) = [cp ''Ali'']
   \<and> ambiguous_names
      (search_names lower_tr (\<lambda>n. if n = cp ''ahmet'' then example_hits
                                 else if n = cp ''ali'' then [(example_user 7, 1 / 10)] else [])
         [cp ''Ahmet'', cp '' '', cp ''Ali'', [], cp ''Zzz''] (7 / 10)) = [cp ''Ahmet'', cp ''Zzz'']
   \<and> filter (\<lambda>n. strip n \<noteq> []) [cp ''Ahmet'', cp '' '', cp ''Ali'', [], cp ''Zzz'']
       = [cp ''Ahmet'', cp ''Ali'', cp ''Zzz'']"
proof -
  let ?q = "\<lambda>n. if n = cp ''ahmet'' then example_hits
                 else if n = cp ''ali'' then [(example_user 7, 1 / 10)] else []"
  let ?names = "[cp ''Ahmet'', cp '' '', cp ''Ali'', [], cp ''Zzz'']"
  have a: "filter (\<lambda>n. strip n \<noteq> []) ?names = [cp ''Ahmet'', cp ''Ali'', cp ''Zzz'']"
    by code_simp
  have b: "filter (\<lambda>n. length (groups_cleared (7 / 10) (?q (lower_tr n))) = 1)
             [cp ''Ahmet'', cp ''Ali'', cp ''Zzz''] = [cp ''Ali'']"
    by code_simp
  have c: "filter (\<lambda>n. length (groups_cleared (7 / 10) (?q (lower_tr n))) \<noteq> 1)
             [cp ''Ahmet'', cp ''Ali'', cp ''Zzz''] = [cp ''Ahmet'', cp ''Zzz'']"
    by code_simp
  note t = one_outcome_per_name[of lower_tr ?q ?names "7 / 10"]
  have r1: "map input_name (resolved_names (search_names lower_tr ?q ?names (7 / 10))) = [cp ''Ali'']"
    using t[THEN conjunct1] unfolding a b .
  have r2: "ambiguous_names (search_names lower_tr ?q ?names (7 / 10)) = [cp ''Ahmet'', cp ''Zzz'']"
    using t[THEN conjunct2, THEN conjunct1] unfolding a c .
  show ?thesis using r1 r2 a by (intro conjI)
qed

lemma distinct_map_sort_key:
  "distinct (map f (sort_key k xs)) = distinct (map f xs)"
proof -
  have "card (set (map f (sort_key k xs))) = card (set (map f xs))" by simp
  moreover have "length (map f (sort_key k xs)) = length (map f xs)" by simp
  ultimately show ?thesis by (metis card_distinct distinct_card)
qed

lemma distinct_map_take: "distinct (map f xs) \<Longrightarrow> distinct (map f (take n xs))"
  by (simp add: take_map[symmetric])

text \<open>
  C2, as amended. The unique users of a query hold at most one candidate per person,
  in both implementations and after the truncation to five, and every candidate
  carries the best similarity over all hits of its person, rounded to three decimals;
  that best similarity is at least the threshold.
\<close>

theorem one_candidate_per_person:
  "distinct (map user_id (unique_users_core t hits))
   \<and> distinct (map user_id (unique_users t hits))
   \<and> distinct (map user_id (take 5 (unique_users t hits)))
   \<and> (\<forall>c \<in> set (unique_users_core t hits) \<union> set (unique_users t hits)
            \<union> set (take 5 (unique_users t hits)).
         similarity c = round3 (best_similarity hits (user_id c))
         \<and> t \<le> best_similarity hits (user_id c))"
proof -
  have d: "distinct (map user_id (unique_users_core t hits))"
    unfolding unique_users_core_def by (rule group_by_user_ids_distinct)
  then have d2: "distinct (map user_id (unique_users t hits))"
    unfolding unique_users_def unique_users_core_def by (simp only: distinct_map_sort_key)
  have v: "similarity c = round3 (best_similarity hits (user_id c))
         \<and> t \<le> best_similarity hits (user_id c)"
    if "c \<in> set (unique_users_core t hits)" for c
  proof -
    from that have "c \<in> set (map snd (group_by_user t hits))"
      by (simp only: unique_users_core_def)
    from group_by_user_candidate[OF this]
    show ?thesis by (simp add: groups_cleared_def)
  qed
  have s1: "set (unique_users t hits) = set (unique_users_core t hits)"
    by (simp add: unique_users_def unique_users_core_def)
  have s2: "set (take 5 (unique_users t hits)) \<subseteq> set (unique_users_core t hits)"
    unfolding s1[symmetric] by (rule set_take_subset)
  show ?thesis using d d2 distinct_map_take[OF d2, of 5] v s1 s2 by blast
qed

theorem one_candidate_per_person_witness:
  "map user_id (unique_users (7 / 10) example_hits) = [2, 1, 3]
   \<and> distinct (map user_id (unique_users (7 / 10) example_hits))
   \<and> map similarity (unique_users (7 / 10) example_hits) =
       map (\<lambda>c. round3 (best_similarity example_hits (user_id c)))
         (unique_users (7 / 10) example_hits)"
proof -
  have a: "map user_id (unique_users (7 / 10) example_hits) = [2, 1, 3]" by code_simp
  note t = one_candidate_per_person[of "7 / 10" example_hits]
  have d: "distinct (map user_id (unique_users (7 / 10) example_hits))"
    using t by blast
  have "\<forall>c \<in> set (unique_users (7 / 10) example_hits).
      similarity c = round3 (best_similarity example_hits (user_id c))"
    using t by blast
  then have m: "map similarity (unique_users (7 / 10) example_hits) =
       map (\<lambda>c. round3 (best_similarity example_hits (user_id c)))
         (unique_users (7 / 10) example_hits)"
    by (simp only: map_eq_conv)
  from a d m show ?thesis by (intro conjI)
qed

text \<open>
  C2 as stated fails: a single hit at distance 0.19951 has similarity 0.80049, and the
  candidate carries 0.8.
\<close>

theorem rounded_similarity_counterexample:
  "map similarity (unique_users (7 / 10) [(example_user 1, 19951 / 100000)]) = [4 / 5]
   \<and> map similarity (unique_users_core (7 / 10) [(example_user 1, 19951 / 100000)]) = [4 / 5]
   \<and> best_similarity [(example_user 1, 19951 / 100000)] 1 = 80049 / 100000"
  by code_simp

lemma group_by_user_order:
  "map fst (group_by_user t hs) =
     rev (remdups (rev (map (\<lambda>h. user_id (fst h)) (filter (\<lambda>h. t \<le> hit_similarity h) hs))))"
proof (induction hs rule: rev_induct)
  case Nil
  then show ?case by (simp add: group_by_user_def)
next
  case (snoc h hs)
  have k: "set (map fst (group_by_user t hs)) =
      set (map (\<lambda>h. user_id (fst h)) (filter (\<lambda>h. t \<le> hit_similarity h) hs))"
    by (simp only: snoc set_rev set_remdups)
  show ?case
  proof (cases "t \<le> 1 - snd h")
    case True
    then show ?thesis
      unfolding group_by_user_snoc group_step_keys using snoc k
      by (simp add: hit_similarity_def)
  next
    case False
    then show ?thesis
      unfolding group_by_user_snoc group_step_keys using snoc
      by (simp add: hit_similarity_def)
  qed
qed

lemma unique_users_core_ids:
  "map user_id (unique_users_core t hs) = map fst (group_by_user t hs)"
proof (rule nth_equalityI)
  show "length (map user_id (unique_users_core t hs)) = length (map fst (group_by_user t hs))"
    by (simp add: unique_users_core_def)
next
  fix i assume "i < length (map user_id (unique_users_core t hs))"
  then have i: "i < length (group_by_user t hs)" by (simp add: unique_users_core_def)
  then have "(fst (group_by_user t hs ! i), snd (group_by_user t hs ! i)) \<in> set (group_by_user t hs)"
    by simp
  then have "map_of (group_by_user t hs) (fst (group_by_user t hs ! i)) = Some (snd (group_by_user t hs ! i))"
    using group_by_user_distinct[of t hs] by simp
  then have "user_id (snd (group_by_user t hs ! i)) = fst (group_by_user t hs ! i)"
    using group_by_user_entry[of t hs "fst (group_by_user t hs ! i)"] by (simp add: entry_ok_def)
  then show "map user_id (unique_users_core t hs) ! i = map fst (group_by_user t hs) ! i"
    using i by (simp add: unique_users_core_def)
qed

lemma unique_users_stable:
  "filter (\<lambda>c. similarity c = s) (unique_users t hs) = filter (\<lambda>c. similarity c = s) (unique_users_core t hs)"
proof -
  have "filter (\<lambda>c. - similarity c = - s) (sort_key (\<lambda>x. - similarity x) (unique_users_core t hs))
        = filter (\<lambda>c. - similarity c = - s) (unique_users_core t hs)"
    by (rule sort_key_stable)
  then show ?thesis by (simp add: unique_users_def unique_users_core_def)
qed

lemma unique_users_single:
  "unique_users_core t hs = [c] \<Longrightarrow> unique_users t hs = [c]"
  by (simp add: unique_users_def unique_users_core_def)

lemma singleton_list: "length xs = 1 \<Longrightarrow> \<exists>x. xs = [x]"
  by (cases xs) auto

lemma search_single:
  "strip name \<noteq> [] \<Longrightarrow>
   search_names lower query [name] t =
     (if length (group_by_user t (query (lower name))) = 1
      then \<lparr>resolved_names =
               [\<lparr>input_name = name,
                 matched_user = details (unique_users t (query (lower name)) ! 0),
                 similarity_score = similarity (unique_users t (query (lower name)) ! 0)\<rparr>],
             partial_matches = [], ambiguous_names = [], needs_clarification = False\<rparr>
      else if 1 < length (group_by_user t (query (lower name)))
      then \<lparr>resolved_names = [],
             partial_matches =
               [\<lparr>input_name = name, candidates = take 5 (unique_users t (query (lower name)))\<rparr>],
             ambiguous_names = [name], needs_clarification = True\<rparr>
      else \<lparr>resolved_names = [], partial_matches = [], ambiguous_names = [name],
             needs_clarification = True\<rparr>)"
  by (simp add: search_names_def search_step_def empty_results_def Let_def
        unique_users_length details_def)

lemma search_core_single:
  "strip name \<noteq> [] \<Longrightarrow>
   search_names_core lower query [name] t =
     (if length (group_by_user t (query (lower name))) = 1
      then \<lparr>resolved_names =
               [\<lparr>input_name = name,
                 matched_user = unique_users_core t (query (lower name)) ! 0,
                 similarity_score = similarity (unique_users_core t (query (lower name)) ! 0)\<rparr>],
             partial_matches = [], ambiguous_names = [], needs_clarification = False\<rparr>
      else if 1 < length (group_by_user t (query (lower name)))
      then \<lparr>resolved_names = [],
             partial_matches =
               [\<lparr>input_name = name, candidates = unique_users_core t (query (lower name))\<rparr>],
             ambiguous_names = [name], needs_clarification = True\<rparr>
      else \<lparr>resolved_names = [], partial_matches = [], ambiguous_names = [name],
             needs_clarification = True\<rparr>)"
  by (simp add: search_names_core_def search_step_core_def empty_results_def Let_def
        unique_users_core_length)

text \<open>
  C1, as amended. A non-blank name is classified by the number of groups that clear
  the threshold. None: the name goes to \<open>ambiguous_names\<close> only. Exactly one: a
  resolved entry with that group's candidate. Two or more: the name goes to
  \<open>ambiguous_names\<close> and a partial match is added. In \<open>main.py\<close> its candidates are
  the first five of the unique users sorted by rounded similarity, largest first,
  where candidates of equal similarity keep the order of the dictionary, which is
  the order in which the persons first cleared the threshold among the hits. In the
  package the candidates are the groups in that dictionary order.
\<close>

theorem classification_by_groups:
  assumes "strip name \<noteq> []"
  shows
    "(length (groups_cleared t (query (lower name))) = 0 \<longrightarrow>
        search_names lower query [name] t =
          \<lparr>resolved_names = [], partial_matches = [], ambiguous_names = [name],
           needs_clarification = True\<rparr>
        \<and> search_names_core lower query [name] t =
          \<lparr>resolved_names = [], partial_matches = [], ambiguous_names = [name],
           needs_clarification = True\<rparr>)
     \<and> (length (groups_cleared t (query (lower name))) = 1 \<longrightarrow>
          (\<exists>c. unique_users_core t (query (lower name)) = [c]
             \<and> groups_cleared t (query (lower name)) = [user_id c]
             \<and> search_names lower query [name] t =
                \<lparr>resolved_names =
                   [\<lparr>input_name = name, matched_user = details c,
                     similarity_score = similarity c\<rparr>],
                 partial_matches = [], ambiguous_names = [], needs_clarification = False\<rparr>
             \<and> search_names_core lower query [name] t =
                \<lparr>resolved_names =
                   [\<lparr>input_name = name, matched_user = c, similarity_score = similarity c\<rparr>],
                 partial_matches = [], ambiguous_names = [], needs_clarification = False\<rparr>))
     \<and> (1 < length (groups_cleared t (query (lower name))) \<longrightarrow>
          search_names lower query [name] t =
            \<lparr>resolved_names = [],
             partial_matches =
               [\<lparr>input_name = name, candidates = take 5 (unique_users t (query (lower name)))\<rparr>],
             ambiguous_names = [name], needs_clarification = True\<rparr>
          \<and> search_names_core lower query [name] t =
            \<lparr>resolved_names = [],
             partial_matches =
               [\<lparr>input_name = name, candidates = unique_users_core t (query (lower name))\<rparr>],
             ambiguous_names = [name], needs_clarification = True\<rparr>
          \<and> sorted_wrt (\<lambda>a b. similarity b \<le> similarity a) (unique_users t (query (lower name)))
          \<and> (\<forall>s. filter (\<lambda>c. similarity c = s) (unique_users t (query (lower name)))
                  = filter (\<lambda>c. similarity c = s) (unique_users_core t (query (lower name))))
          \<and> map user_id (unique_users_core t (query (lower name))) =
              rev (remdups (rev (map (\<lambda>h. user_id (fst h))
                 (filter (\<lambda>h. t \<le> hit_similarity h) (query (lower name))))))
          \<and> set (map user_id (unique_users_core t (query (lower name))))
              = set (groups_cleared t (query (lower name))))"
proof -
  let ?hs = "query (lower name)"
  have ids: "set (map user_id (unique_users_core t ?hs)) = set (groups_cleared t ?hs)"
    by (simp only: unique_users_core_ids groups_cleared_set)
  have zero: "length (groups_cleared t ?hs) = 0 \<longrightarrow>
        search_names lower query [name] t =
          \<lparr>resolved_names = [], partial_matches = [], ambiguous_names = [name],
           needs_clarification = True\<rparr>
        \<and> search_names_core lower query [name] t =
          \<lparr>resolved_names = [], partial_matches = [], ambiguous_names = [name],
           needs_clarification = True\<rparr>"
    unfolding groups_cleared_length
    by (simp add: search_single[OF assms] search_core_single[OF assms])
  have one: "length (groups_cleared t ?hs) = 1 \<longrightarrow>
          (\<exists>c. unique_users_core t ?hs = [c]
             \<and> groups_cleared t ?hs = [user_id c]
             \<and> search_names lower query [name] t =
                \<lparr>resolved_names =
                   [\<lparr>input_name = name, matched_user = details c,
                     similarity_score = similarity c\<rparr>],
                 partial_matches = [], ambiguous_names = [], needs_clarification = False\<rparr>
             \<and> search_names_core lower query [name] t =
                \<lparr>resolved_names =
                   [\<lparr>input_name = name, matched_user = c, similarity_score = similarity c\<rparr>],
                 partial_matches = [], ambiguous_names = [], needs_clarification = False\<rparr>)"
  proof
    assume l: "length (groups_cleared t ?hs) = 1"
    then have lg: "length (group_by_user t ?hs) = 1" by (simp only: groups_cleared_length)
    then have "length (unique_users_core t ?hs) = 1" by (simp only: unique_users_core_length)
    then obtain c where c: "unique_users_core t ?hs = [c]" using singleton_list by blast
    obtain p where p: "groups_cleared t ?hs = [p]" using l singleton_list by blast
    have "p = user_id c" using ids unfolding c p by simp
    then have g: "groups_cleared t ?hs = [user_id c]" using p by simp
    have u: "unique_users t ?hs = [c]" using c by (rule unique_users_single)
    show "\<exists>c. unique_users_core t ?hs = [c]
             \<and> groups_cleared t ?hs = [user_id c]
             \<and> search_names lower query [name] t =
                \<lparr>resolved_names =
                   [\<lparr>input_name = name, matched_user = details c,
                     similarity_score = similarity c\<rparr>],
                 partial_matches = [], ambiguous_names = [], needs_clarification = False\<rparr>
             \<and> search_names_core lower query [name] t =
                \<lparr>resolved_names =
                   [\<lparr>input_name = name, matched_user = c, similarity_score = similarity c\<rparr>],
                 partial_matches = [], ambiguous_names = [], needs_clarification = False\<rparr>"
      using c g by (intro exI[of _ c]) (simp add: search_single[OF assms] search_core_single[OF assms] lg u)
  qed
  have many: "1 < length (groups_cleared t ?hs) \<longrightarrow>
          search_names lower query [name] t =
            \<lparr>resolved_names = [],
             partial_matches =
               [\<lparr>input_name = name, candidates = take 5 (unique_users t ?hs)\<rparr>],
             ambiguous_names = [name], needs_clarification = True\<rparr>
          \<and> search_names_core lower query [name] t =
            \<lparr>resolved_names = [],
             partial_matches =
               [\<lparr>input_name = name, candidates = unique_users_core t ?hs\<rparr>],
             ambiguous_names = [name], needs_clarification = True\<rparr>"
    unfolding groups_cleared_length
    by (simp add: search_single[OF assms] search_core_single[OF assms])
  have order: "map user_id (unique_users_core t ?hs) =
      rev (remdups (rev (map (\<lambda>h. user_id (fst h)) (filter (\<lambda>h. t \<le> hit_similarity h) ?hs))))"
    by (simp only: unique_users_core_ids group_by_user_order)
  show ?thesis
    using zero one many sorted_unique_users[of t ?hs] unique_users_stable[of _ t ?hs] order ids
    by blast
qed

theorem classification_by_groups_witness:
  "strip (cp ''Ahmet'') \<noteq> []
   \<and> 1 < length (groups_cleared (7 / 10) (tie_query (lower_tr (cp ''Ahmet''))))
   \<and> search_names lower_tr tie_query [cp ''Ahmet''] (7 / 10) =
        \<lparr>resolved_names = [],
         partial_matches =
           [\<lparr>input_name = cp ''Ahmet'',
             candidates = take 5 (unique_users (7 / 10) (tie_query (lower_tr (cp ''Ahmet''))))\<rparr>],
         ambiguous_names = [cp ''Ahmet''], needs_clarification = True\<rparr>"
proof -
  have h: "strip (cp ''Ahmet'') \<noteq> []" by code_simp
  have g: "1 < length (groups_cleared (7 / 10) (tie_query (lower_tr (cp ''Ahmet''))))"
    by code_simp
  note t = classification_by_groups[OF h, of "7 / 10" tie_query lower_tr]
  from t[THEN conjunct2, THEN conjunct2, THEN mp, OF g, THEN conjunct1] h g
  show ?thesis by (intro conjI)
qed

text \<open>
  C1 as stated fails on the tie-break: with the hits of person 2 before those of
  person 1 and equal similarity, the candidates come out as 2, 1.
\<close>

theorem tie_order_counterexample:
  "map user_id (candidates (partial_matches
      (search_names lower_tr tie_query [cp ''Ahmet''] (7 / 10)) ! 0)) = [2, 1]
   \<and> map similarity (candidates (partial_matches
      (search_names lower_tr tie_query [cp ''Ahmet''] (7 / 10)) ! 0)) = [9 / 10, 9 / 10]"
  by code_simp

section \<open>Properties of the index build\<close>

lemma split_acc_Nil_iff:
  "split_acc cur s = [] \<longleftrightarrow> cur = [] \<and> (\<forall>c \<in> set s. is_space c)"
  by (induction s arbitrary: cur) auto

lemma split_ws_Nil_iff: "split_ws s = [] \<longleftrightarrow> (\<forall>c \<in> set s. is_space c)"
  by (simp add: split_ws_def split_acc_Nil_iff)

lemma all_dropWhile: "(\<forall>x \<in> set (dropWhile P s). P x) \<longleftrightarrow> (\<forall>x \<in> set s. P x)"
  by (induction s) auto

lemma strip_Nil_iff: "strip s = [] \<longleftrightarrow> (\<forall>c \<in> set s. is_space c)"
  by (simp add: strip_def all_dropWhile)

lemma tokens_not_blank: "split_ws s \<noteq> [] \<Longrightarrow> strip s \<noteq> []"
  by (simp add: strip_Nil_iff split_ws_Nil_iff)

lemma first_name_Inr_iff: "(\<exists>f. first_name fn = Inr f) \<longleftrightarrow> split_ws fn \<noteq> []"
  by (cases "split_ws fn") (simp_all add: first_name_def)

lemma variants_Inr_iff:
  "(\<exists>vs. variants lower u = Inr vs) \<longleftrightarrow> split_ws (lower (full_name u)) \<noteq> []"
  by (cases "split_ws (lower (full_name u))") (simp_all add: variants_def first_name_def Let_def)

lemma variants_core_Inr_iff:
  "(\<exists>vs. variants_core lower u = Inr vs) \<longleftrightarrow> split_ws (lower (full_name u)) \<noteq> []"
  by (cases "split_ws (lower (full_name u))") (simp_all add: variants_core_def first_name_def Let_def)

lemma variants_head:
  "variants lower u = Inr vs \<Longrightarrow> lower (full_name u) \<in> set vs \<and> strip (lower (full_name u)) \<noteq> []"
proof -
  assume a: "variants lower u = Inr vs"
  then have "split_ws (lower (full_name u)) \<noteq> []"
    using variants_Inr_iff[of lower u] by blast
  then have "strip (lower (full_name u)) \<noteq> []" by (rule tokens_not_blank)
  moreover have "lower (full_name u) \<in> set vs"
    using a by (cases "split_ws (lower (full_name u))")
      (auto simp: variants_def first_name_def Let_def)
  ultimately show ?thesis by simp
qed

lemma variants_core_head:
  "variants_core lower u = Inr vs \<Longrightarrow> lower (full_name u) \<in> set vs \<and> strip (lower (full_name u)) \<noteq> []"
proof -
  assume a: "variants_core lower u = Inr vs"
  then have "split_ws (lower (full_name u)) \<noteq> []"
    using variants_core_Inr_iff[of lower u] by blast
  then have "strip (lower (full_name u)) \<noteq> []" by (rule tokens_not_blank)
  moreover have "lower (full_name u) \<in> set vs"
    using a by (cases "split_ws (lower (full_name u))")
      (auto simp: variants_core_def first_name_def Let_def)
  ultimately show ?thesis by simp
qed

lemma entries_of_snd: "snd ` set (entries_of u vs) \<subseteq> {u}"
  by (auto simp: entries_of_def)

lemma entries_of_nonempty:
  "v \<in> set vs \<Longrightarrow> strip v \<noteq> [] \<Longrightarrow> snd ` set (entries_of u vs) = {u}"
  by (force simp: entries_of_def)

lemma index_rows_total:
  assumes "\<forall>u \<in> set df. \<exists>vs. vf u = Inr vs \<and> (\<exists>v \<in> set vs. strip v \<noteq> [])"
  shows "\<exists>idx. index_rows vf df = Inr idx \<and> snd ` set idx = set df"
  using assms
proof (induction df)
  case Nil
  then show ?case by simp
next
  case (Cons u df)
  then obtain vs v where vs: "vf u = Inr vs" "v \<in> set vs" "strip v \<noteq> []" by auto
  from Cons obtain idx where idx: "index_rows vf df = Inr idx" "snd ` set idx = set df" by auto
  have "snd ` set (entries_of u vs) = {u}" using vs by (intro entries_of_nonempty)
  then have "snd ` set (entries_of u vs @ idx) = set (u # df)"
    using idx by (simp add: image_Un)
  then show ?case using vs idx by simp
qed

lemma index_rows_fails:
  "u \<in> set df \<Longrightarrow> vf u = Inl e \<Longrightarrow> \<exists>e'. index_rows vf df = Inl e'"
  by (induction df) (auto split: sum.splits)

text \<open>
  C7, as amended. The indexing of the rows (\<open>_index_users\<close>) compares no ids and no
  e-mails. For every population whose lowercased full names each hold a token, it
  completes, with unique or with duplicate ids and e-mails, and every row is
  indexed; this holds for \<open>main.py\<close> and for the package.
\<close>

theorem build_ignores_duplicates:
  assumes "\<forall>u \<in> set df_user. split_ws (lower (full_name u)) \<noteq> []"
  shows "(\<exists>idx. index_users lower df_user = Inr idx \<and> snd ` set idx = set df_user)
       \<and> (\<exists>idx. index_users_core lower df_user = Inr idx \<and> snd ` set idx = set df_user)"
proof -
  have "\<forall>u \<in> set df_user. \<exists>vs. variants lower u = Inr vs \<and> (\<exists>v \<in> set vs. strip v \<noteq> [])"
  proof
    fix u assume "u \<in> set df_user"
    then have "split_ws (lower (full_name u)) \<noteq> []" using assms by blast
    then obtain vs where "variants lower u = Inr vs" using variants_Inr_iff[of lower u] by blast
    then show "\<exists>vs. variants lower u = Inr vs \<and> (\<exists>v \<in> set vs. strip v \<noteq> [])"
      using variants_head[of lower u vs] by blast
  qed
  then have a: "\<exists>idx. index_users lower df_user = Inr idx \<and> snd ` set idx = set df_user"
    unfolding index_users_def by (rule index_rows_total)
  have "\<forall>u \<in> set df_user. \<exists>vs. variants_core lower u = Inr vs \<and> (\<exists>v \<in> set vs. strip v \<noteq> [])"
  proof
    fix u assume "u \<in> set df_user"
    then have "split_ws (lower (full_name u)) \<noteq> []" using assms by blast
    then obtain vs where "variants_core lower u = Inr vs"
      using variants_core_Inr_iff[of lower u] by blast
    then show "\<exists>vs. variants_core lower u = Inr vs \<and> (\<exists>v \<in> set vs. strip v \<noteq> [])"
      using variants_core_head[of lower u vs] by blast
  qed
  then have b: "\<exists>idx. index_users_core lower df_user = Inr idx \<and> snd ` set idx = set df_user"
    unfolding index_users_core_def by (rule index_rows_total)
  from a b show ?thesis by (intro conjI)
qed

theorem build_ignores_duplicates_witness:
  "\<not> isl (index_users lower_tr duplicate_rows)
   \<and> (\<exists>idx. index_users lower_tr duplicate_rows = Inr idx \<and> snd ` set idx = set duplicate_rows)
   \<and> (\<exists>idx. index_users_core lower_tr duplicate_rows = Inr idx
          \<and> snd ` set idx = set duplicate_rows)"
proof -
  have h: "\<forall>u \<in> set duplicate_rows. split_ws (lower_tr (full_name u)) \<noteq> []" by code_simp
  note t = build_ignores_duplicates[OF h]
  from t[THEN conjunct1] have "\<not> isl (index_users lower_tr duplicate_rows)" by auto
  with t show ?thesis by (intro conjI) blast+
qed

text \<open>
  C7 as stated fails: two rows with the same id and the same e-mail are indexed, both
  of them, and the build does not fail.
\<close>

theorem duplicate_identity_counterexample:
  "map user_id duplicate_rows = [1, 1]
   \<and> map email_address duplicate_rows = [cp ''ali@company.com'', cp ''ali@company.com'']
   \<and> \<not> isl (index_users lower_tr duplicate_rows)
   \<and> \<not> isl (index_users_core lower_tr duplicate_rows)
   \<and> remdups (map snd (projr (index_users_core lower_tr duplicate_rows))) = duplicate_rows"
  by code_simp

lemma entries_of_texts:
  "map fst (entries_of u vs) = filter (\<lambda>v. strip v \<noteq> []) (remdups vs)"
  by (simp add: entries_of_def comp_def)

lemma variants_core_complete:
  assumes "variants_core lower u = Inr vs"
  shows "distinct (map fst (entries_of u vs))
       \<and> (\<forall>v \<in> set (map fst (entries_of u vs)). strip v \<noteq> [])
       \<and> (\<forall>v \<in> set [lower (full_name u),
                       fold_diacritics (lower (full_name u)),
                       hd (split_ws (lower (full_name u))),
                       last (split_ws (lower (full_name u))),
                       lower (before_first [64] (email_address u)),
                       replace_char 46 32 (lower (before_first [64] (email_address u))),
                       without_titles (lower (full_name u))].
             strip v \<noteq> [] \<longrightarrow> v \<in> set (map fst (entries_of u vs)))"
proof -
  obtain t ts where sp: "split_ws (lower (full_name u)) = t # ts"
    using assms variants_core_Inr_iff[of lower u] by (cases "split_ws (lower (full_name u))") auto
  have vs: "vs = [lower (full_name u), fold_diacritics (lower (full_name u)), t,
                  last_name (lower (full_name u)),
                  lower (before_first [64] (email_address u)),
                  replace_char 46 32 (lower (before_first [64] (email_address u))),
                  without_titles (lower (full_name u)), common_variations (lower (full_name u))]"
    using assms sp by (simp add: variants_core_def first_name_def Let_def)
  have l: "last (split_ws (lower (full_name u))) \<in> set vs"
  proof (cases ts)
    case Nil
    then show ?thesis using sp vs by simp
  next
    case (Cons a list)
    then have "last_name (lower (full_name u)) = last (split_ws (lower (full_name u)))"
      using sp by (simp add: last_name_def)
    then show ?thesis using vs by simp
  qed
  have h: "hd (split_ws (lower (full_name u))) \<in> set vs" using sp vs by simp
  have m: "\<forall>v \<in> set [lower (full_name u),
                       fold_diacritics (lower (full_name u)),
                       hd (split_ws (lower (full_name u))),
                       last (split_ws (lower (full_name u))),
                       lower (before_first [64] (email_address u)),
                       replace_char 46 32 (lower (before_first [64] (email_address u))),
                       without_titles (lower (full_name u))]. v \<in> set vs"
    using l h vs by simp
  show ?thesis unfolding entries_of_texts using m by auto
qed

text \<open>
  C8. \<open>variants_core_complete\<close> above is the claim for the package: the seven
  strings are indexed when they are not blank, blank strings are dropped and
  duplicates collapse. \<open>main.py\<close> misses the seventh: for the row of its own sample
  data whose full name is Sahin Nicat, Ph.D written with S-cedilla (code point 350,
  lower case 351) it indexes five strings, and the name without the title
  is not among them, while the package indexes it.
\<close>

theorem main_variants_lack_title_free_name:
  "variants lower_tr sahin_nicat =
     Inr [351 # cp ''ahin nicat, ph.d'', cp ''sahin nicat, ph.d'', 351 # cp ''ahin'',
          cp ''ph.d'', cp ''snicat'', cp ''snicat'']
   \<and> map fst (projr (index_users lower_tr [sahin_nicat])) =
       [351 # cp ''ahin nicat, ph.d'', cp ''sahin nicat, ph.d'', 351 # cp ''ahin'',
        cp ''ph.d'', cp ''snicat'']
   \<and> without_titles (lower_tr (full_name sahin_nicat)) = 351 # cp ''ahin nicat''
   \<and> map fst (projr (index_users_core lower_tr [sahin_nicat])) =
       [351 # cp ''ahin nicat, ph.d'', 351 # cp ''ahin'', cp ''ph.d'', cp ''snicat'',
        351 # cp ''ahin nicat'', cp ''sahin nicat, ph.d'']"
  by code_simp

section \<open>Properties of the clarification merge\<close>

lemma details_user: "details (u::user) = u"
  by (simp add: details_def)

lemma merge_returns_meeting:
  assumes "create_meeting_with_resolved_names lower schedule meeting_info (Some sr) answer loaded = Inr m"
  shows "meeting_info_ok lower schedule meeting_info
       \<and> match_partials lower (clarification_choices answer loaded) (partial_matches sr)
            (map (\<lambda>r. full_name (matched_user r)) (resolved_names sr),
             map matched_user (resolved_names sr))
          = Inr (attendee_names m, user_details m)"
  using assms
  by (auto simp: create_meeting_with_resolved_names_def meeting_info_ok_def Let_def details_user
        split: option.splits json.splits sum.splits prod.splits)

lemma merge_ok:
  assumes "meeting_info_ok lower schedule meeting_info"
    and "match_partials lower (clarification_choices answer loaded) (partial_matches sr)
            (map (\<lambda>r. full_name (matched_user r)) (resolved_names sr),
             map matched_user (resolved_names sr))
          = Inr (names, users)"
  shows "\<exists>m. create_meeting_with_resolved_names lower schedule meeting_info (Some sr) answer loaded = Inr m"
  using assms
  by (auto simp: create_meeting_with_resolved_names_def meeting_info_ok_def Let_def details_user
        split: option.splits json.splits sum.splits prod.splits)

lemma plain_choices:
  "\<not> startswith answer [123] \<Longrightarrow> \<not> startswith answer [91] \<Longrightarrow>
   clarification_choices answer loaded = map JStr [strip answer]"
  by (simp add: clarification_choices_def)

lemma match_partials_strings_ok:
  assumes "\<forall>ch \<in> set choices. \<exists>s. ch = JStr s"
  shows "\<exists>names users. match_partials lower choices pending acc = Inr (names, users)"
proof (cases "match_partials lower choices pending acc")
  case (Inl e)
  then have "\<exists>ch \<in> set choices. \<forall>s. ch \<noteq> JStr s"
    using match_partials_error[of lower choices pending acc] by blast
  with assms show ?thesis by blast
next
  case (Inr r)
  then show ?thesis by (cases r) simp
qed

lemma accepted_concat:
  "accepted lower labels pending = concat (map (\<lambda>pm. accepted lower labels [pm]) pending)"
  by (simp add: accepted_def)

lemma find_SomeD: "find P xs = Some c \<Longrightarrow> c \<in> set xs \<and> P c"
  by (induction xs) (auto split: if_splits)

lemma accepted_single_matches:
  "c \<in> set (accepted lower labels [pm]) \<Longrightarrow>
     c \<in> set (candidates pm) \<and> (\<exists>l \<in> set labels. name_matches lower l c)"
  by (auto simp: accepted_def split: option.splits dest: find_SomeD find_SomeD[OF sym])

lemma accepted_single_none:
  "(\<forall>l \<in> set labels. \<forall>c \<in> set (candidates pm). \<not> name_matches lower l c) \<Longrightarrow>
     accepted lower labels [pm] = []"
  by (auto simp: accepted_def find_None_iff split: option.splits)


lemma after_first_None_iff: "sep \<noteq> [] \<Longrightarrow> after_first sep s = None \<longleftrightarrow> \<not> contains sep s"
  by (induction s) auto

text \<open>
  C4, as amended. Whenever the merge returns a meeting, its \<open>user_details\<close> begin
  with the matched users of the already resolved names, unchanged and in order, and
  its attendee names with their full names, whether or not the answer matches a
  candidate. With a usable meeting information it does return a meeting whenever the
  parsed choices are strings, as they are for every answer that starts with neither
  \<open>{\<close> nor \<open>[\<close>.
\<close>

theorem resolved_attendees_preserved:
  "(create_meeting_with_resolved_names lower schedule meeting_info (Some sr) answer loaded = Inr m \<longrightarrow>
      prefix (map matched_user (resolved_names sr)) (user_details m)
      \<and> prefix (map (\<lambda>r. full_name (matched_user r)) (resolved_names sr)) (attendee_names m))
   \<and> (meeting_info_ok lower schedule meeting_info
        \<and> (\<forall>ch \<in> set (clarification_choices answer loaded). \<exists>s. ch = JStr s) \<longrightarrow>
        (\<exists>m'. create_meeting_with_resolved_names lower schedule meeting_info (Some sr) answer loaded
               = Inr m'))
   \<and> (meeting_info_ok lower schedule meeting_info
        \<and> \<not> startswith answer [123] \<and> \<not> startswith answer [91] \<longrightarrow>
        (\<exists>m'. create_meeting_with_resolved_names lower schedule meeting_info (Some sr) answer loaded
               = Inr m'))"
proof -
  let ?acc = "(map (\<lambda>r. full_name (matched_user r)) (resolved_names sr),
               map matched_user (resolved_names sr))"
  have a: "create_meeting_with_resolved_names lower schedule meeting_info (Some sr) answer loaded = Inr m \<longrightarrow>
      prefix (map matched_user (resolved_names sr)) (user_details m)
      \<and> prefix (map (\<lambda>r. full_name (matched_user r)) (resolved_names sr)) (attendee_names m)"
  proof
    assume "create_meeting_with_resolved_names lower schedule meeting_info (Some sr) answer loaded = Inr m"
    from merge_returns_meeting[OF this]
    have "match_partials lower (clarification_choices answer loaded) (partial_matches sr) ?acc
          = Inr (attendee_names m, user_details m)" by blast
    from match_partials_prefix[OF this]
    show "prefix (map matched_user (resolved_names sr)) (user_details m)
      \<and> prefix (map (\<lambda>r. full_name (matched_user r)) (resolved_names sr)) (attendee_names m)"
      by simp
  qed
  have b: "meeting_info_ok lower schedule meeting_info
        \<and> (\<forall>ch \<in> set (clarification_choices answer loaded). \<exists>s. ch = JStr s) \<longrightarrow>
        (\<exists>m'. create_meeting_with_resolved_names lower schedule meeting_info (Some sr) answer loaded
               = Inr m')"
  proof
    assume h: "meeting_info_ok lower schedule meeting_info
        \<and> (\<forall>ch \<in> set (clarification_choices answer loaded). \<exists>s. ch = JStr s)"
    then obtain names users where
      "match_partials lower (clarification_choices answer loaded) (partial_matches sr) ?acc
         = Inr (names, users)"
      using match_partials_strings_ok[of "clarification_choices answer loaded" lower
          "partial_matches sr" ?acc] by blast
    from merge_ok[OF conjunct1[OF h] this]
    show "\<exists>m'. create_meeting_with_resolved_names lower schedule meeting_info (Some sr) answer loaded
               = Inr m'" .
  qed
  have c: "meeting_info_ok lower schedule meeting_info
        \<and> \<not> startswith answer [123] \<and> \<not> startswith answer [91] \<longrightarrow>
        (\<exists>m'. create_meeting_with_resolved_names lower schedule meeting_info (Some sr) answer loaded
               = Inr m')"
  proof
    assume h: "meeting_info_ok lower schedule meeting_info
        \<and> \<not> startswith answer [123] \<and> \<not> startswith answer [91]"
    then have "clarification_choices answer loaded = map JStr [strip answer]"
      by (simp add: plain_choices)
    then have "\<forall>ch \<in> set (clarification_choices answer loaded). \<exists>s. ch = JStr s" by simp
    with h b show "\<exists>m'. create_meeting_with_resolved_names lower schedule meeting_info (Some sr) answer loaded
               = Inr m'" by blast
  qed
  from a b c show ?thesis by (intro conjI)
qed

theorem resolved_attendees_preserved_witness:
  "meeting_info_ok lower_tr example_schedule example_meeting_info
   \<and> isl (create_meeting_with_resolved_names lower_tr example_schedule example_meeting_info (Some example_session) (cp ''Kaya'') None) = False
   \<and> prefix (map matched_user (resolved_names example_session))
        (user_details (projr (create_meeting_with_resolved_names lower_tr example_schedule
            example_meeting_info (Some example_session) (cp ''Kaya'') None)))
   \<and> map user_id (user_details (projr (create_meeting_with_resolved_names lower_tr
            example_schedule example_meeting_info (Some example_session) (cp ''Kaya'') None))) = [10, 2]"
proof -
  let ?r = "create_meeting_with_resolved_names lower_tr example_schedule example_meeting_info (Some example_session) (cp ''Kaya'') None"
  have ok: "meeting_info_ok lower_tr example_schedule example_meeting_info" by code_simp
  have i: "isl ?r = False" by code_simp
  then have r: "?r = Inr (projr ?r)" by (cases ?r) simp_all
  from resolved_attendees_preserved[of lower_tr example_schedule example_meeting_info
      example_session "cp ''Kaya''" None "projr ?r", THEN conjunct1, THEN mp, OF r, THEN conjunct1]
  have p: "prefix (map matched_user (resolved_names example_session)) (user_details (projr ?r))" .
  have u: "map user_id (user_details (projr ?r)) = [10, 2]" by code_simp
  from ok i p u show ?thesis by (intro conjI)
qed

text \<open>
  C4 as stated fails: with a meeting information whose date description is \<open>null\<close>,
  the tool ends in its \<open>except\<close> branch on the answer \<open>Kaya\<close> and returns the
  error record, which holds no attendee.
\<close>

theorem unusable_meeting_info_counterexample:
  "create_meeting_with_resolved_names lower_tr example_schedule
     (Some (JDict [(cp ''date_description'', JNull)])) (Some example_session) (cp ''Kaya'') None
   = Inl AttributeError"
  by code_simp


text \<open>
  C5, as amended. When the parsed choices are strings, no pending name makes the
  merge fail: it returns a meeting exactly when the meeting information is usable,
  whatever was matched. The meeting lists the resolved attendees followed by the
  accepted candidates. Every accepted candidate of a pending name is one of its
  candidates that some label matches, and a pending name none of whose candidates
  matches any label contributes nothing: it is left out of the attendee list.
\<close>

theorem merge_omits_unmatched:
  assumes "clarification_choices answer loaded = map JStr labels"
  shows "(create_meeting_with_resolved_names lower schedule meeting_info (Some sr) answer loaded = Inr m \<longrightarrow>
            attendee_names m =
              map (\<lambda>r. full_name (matched_user r)) (resolved_names sr)
              @ map full_name (accepted lower labels (partial_matches sr))
            \<and> user_details m =
              map matched_user (resolved_names sr)
              @ map details (accepted lower labels (partial_matches sr)))
       \<and> ((\<exists>m'. create_meeting_with_resolved_names lower schedule meeting_info (Some sr) answer loaded
                 = Inr m')
            \<longleftrightarrow> meeting_info_ok lower schedule meeting_info)
       \<and> accepted lower labels (partial_matches sr) =
           concat (map (\<lambda>pm. accepted lower labels [pm]) (partial_matches sr))
       \<and> (\<forall>pm \<in> set (partial_matches sr).
            (\<forall>c \<in> set (accepted lower labels [pm]).
               c \<in> set (candidates pm) \<and> (\<exists>l \<in> set labels. name_matches lower l c))
            \<and> ((\<forall>l \<in> set labels. \<forall>c \<in> set (candidates pm). \<not> name_matches lower l c) \<longrightarrow>
                 accepted lower labels [pm] = []))"
proof -
  let ?acc = "(map (\<lambda>r. full_name (matched_user r)) (resolved_names sr),
               map matched_user (resolved_names sr))"
  have mp: "match_partials lower (clarification_choices answer loaded) (partial_matches sr) ?acc
      = Inr (map (\<lambda>r. full_name (matched_user r)) (resolved_names sr)
               @ map full_name (accepted lower labels (partial_matches sr)),
             map matched_user (resolved_names sr)
               @ map details (accepted lower labels (partial_matches sr)))"
    unfolding assms by (simp add: match_partials_str)
  have a: "create_meeting_with_resolved_names lower schedule meeting_info (Some sr) answer loaded = Inr m \<longrightarrow>
            attendee_names m =
              map (\<lambda>r. full_name (matched_user r)) (resolved_names sr)
              @ map full_name (accepted lower labels (partial_matches sr))
            \<and> user_details m =
              map matched_user (resolved_names sr)
              @ map details (accepted lower labels (partial_matches sr))"
  proof
    assume "create_meeting_with_resolved_names lower schedule meeting_info (Some sr) answer loaded = Inr m"
    from merge_returns_meeting[OF this] mp
    show "attendee_names m =
              map (\<lambda>r. full_name (matched_user r)) (resolved_names sr)
              @ map full_name (accepted lower labels (partial_matches sr))
            \<and> user_details m =
              map matched_user (resolved_names sr)
              @ map details (accepted lower labels (partial_matches sr))"
      by simp
  qed
  have b: "(\<exists>m'. create_meeting_with_resolved_names lower schedule meeting_info (Some sr) answer loaded
                 = Inr m')
            \<longleftrightarrow> meeting_info_ok lower schedule meeting_info"
    using merge_returns_meeting[of lower schedule meeting_info sr answer loaded]
      merge_ok[OF _ mp, of schedule meeting_info] by blast
  show ?thesis
    using a b accepted_concat[of lower labels "partial_matches sr"]
      accepted_single_matches[of _ lower labels] accepted_single_none[of labels _ lower]
    by blast
qed

theorem merge_omits_unmatched_witness:
  "clarification_choices (cp ''zzz'') None = map JStr [cp ''zzz'']
   \<and> accepted lower_tr [cp ''zzz''] (partial_matches example_session) = []
   \<and> meeting_info_ok lower_tr example_schedule example_meeting_info
   \<and> (\<exists>m'. create_meeting_with_resolved_names lower_tr example_schedule example_meeting_info (Some example_session) (cp ''zzz'') None = Inr m')"
proof -
  have h: "clarification_choices (cp ''zzz'') None = map JStr [cp ''zzz'']" by code_simp
  have a: "accepted lower_tr [cp ''zzz''] (partial_matches example_session) = []" by code_simp
  have ok: "meeting_info_ok lower_tr example_schedule example_meeting_info" by code_simp
  from merge_omits_unmatched[OF h, of lower_tr example_schedule example_meeting_info
      example_session, THEN conjunct2, THEN conjunct1] ok
  have "\<exists>m'. create_meeting_with_resolved_names lower_tr example_schedule example_meeting_info (Some example_session) (cp ''zzz'') None = Inr m'" by blast
  with h a ok show ?thesis by (intro conjI)
qed

text \<open>
  C5 as stated fails: the answer \<open>zzz\<close> matches no candidate of the pending name
  \<open>Ahmet\<close>, and the merge returns a meeting with the resolved attendee only.
\<close>

theorem unmatched_answer_counterexample:
  "create_meeting_with_resolved_names lower_tr example_schedule example_meeting_info (Some example_session) (cp ''zzz'') None =
     Inr \<lparr>attendee_names = [cp ''Arda Or'' @ 231 # cp ''un''],
          purpose = JStr (cp ''toplant'' @ 305 # cp '' d'' @ 252 # cp ''zenleme''),
          endTime = cp ''2025-01-02T15:30:00+03:00'',
          meeting_duration = JNum 90,
          startTime = cp ''2025-01-02T14:00:00+03:00'',
          subject = JStr (cp ''Proje''),
          user_details =
            [\<lparr>user_id = 10, full_name = cp ''Arda Or'' @ 231 # cp ''un'',
              email_address = cp ''arda.orcun@company.com''\<rparr>]\<rparr>"
  by code_simp




end
